theory Spec2Isabelle
  imports Complex_Main
begin

section \<open>The slot-machine reel: data model\<close>

text \<open>
  A shallow embedding of \<^verbatim>\<open>src/SlotMachine.tsx\<close>: the \<^verbatim>\<open>spin\<close> callback of
  \<^verbatim>\<open>SlotMachineInner\<close>, the closures it schedules (\<^verbatim>\<open>animate\<close>,
  \<^verbatim>\<open>animateTwistBack\<close>, \<^verbatim>\<open>completeOnce\<close>) and the unmount cleanup.

  JavaScript numbers are modelled as exact reals (rounding of IEEE doubles and signed zero
  are not modelled); the three non-finite results a division can give are written out in
  \<open>jsnum\<close>. Index and count props are integers. An array element is an \<open>'a option\<close>,
  \<open>None\<close> being JavaScript's \<^verbatim>\<open>undefined\<close>; equality on \<open>'a\<close> stands for reference
  identity of items.
\<close>

datatype jsnum = Fin real | PInf | NInf | NaN

text \<open>\<^verbatim>\<open>a / b\<close> on finite numbers.\<close>

definition js_div :: "real \<Rightarrow> real \<Rightarrow> jsnum" where
  "js_div a b =
     (if b \<noteq> 0 then Fin (a / b)
      else if 0 < a then PInf
      else if a < 0 then NInf
      else NaN)"

text \<open>\<^verbatim>\<open>Math.min(x, 1)\<close>.\<close>

fun js_min1 :: "jsnum \<Rightarrow> jsnum" where
  "js_min1 (Fin x) = Fin (min x 1)"
| "js_min1 PInf = Fin 1"
| "js_min1 NInf = NInf"
| "js_min1 NaN = NaN"

text \<open>\<^verbatim>\<open>x < 1\<close>.\<close>

fun js_lt1 :: "jsnum \<Rightarrow> bool" where
  "js_lt1 (Fin x) = (x < 1)"
| "js_lt1 PInf = False"
| "js_lt1 NInf = True"
| "js_lt1 NaN = False"

text \<open>
  The props a render passes to the \<^verbatim>\<open>spin\<close> closure. \<open>forcedResult = None\<close> is
  \<^verbatim>\<open>null\<close>; \<open>onSpinStart\<close> and \<open>onSpinEnd\<close> say whether the caller supplied the optional
  callback; \<open>placeholder\<close> is the item \<^verbatim>\<open>pickRandom\<close> builds from
  \<^verbatim>\<open>placeholderImage\<close>; \<open>itemSize\<close> is the resolved item size.
\<close>

record 'a props =
  itemsPool :: "'a list"
  forcedResult :: "'a option"
  duration :: real
  twistDuration :: real
  itemSize :: real
  itemGap :: real
  reelItemCount :: int
  forcedTargetIndex :: int
  onSpinStart :: bool
  onSpinEnd :: bool
  placeholder :: 'a

definition DEFAULT_REEL_ITEMS :: int where
  "DEFAULT_REEL_ITEMS = 35"

definition DEFAULT_FORCED_TARGET_INDEX :: int where
  "DEFAULT_FORCED_TARGET_INDEX = 30"

definition STOP_OFFSET_RATIO :: real where
  "STOP_OFFSET_RATIO = 49 / 100"

definition forcedBaseCount :: "'a props \<Rightarrow> int" where
  "forcedBaseCount p = forcedTargetIndex p + 1"

definition forcedTailCount :: "'a props \<Rightarrow> int" where
  "forcedTailCount p = reelItemCount p - forcedBaseCount p"

definition itemTotal :: "'a props \<Rightarrow> real" where
  "itemTotal p = itemSize p + itemGap p * 2"

definition isForced :: "'a props \<Rightarrow> bool" where
  "isForced p = (forcedResult p \<noteq> None)"

subsection \<open>Reel sequence generation\<close>

text \<open>
  \<^verbatim>\<open>pickRandom\<close>, given the value \<open>r\<close> that \<^verbatim>\<open>Math.random()\<close> returned. An index
  outside the pool reads \<^verbatim>\<open>undefined\<close>.
\<close>

definition pickRandom :: "'a props \<Rightarrow> real \<Rightarrow> 'a option" where
  "pickRandom p r =
     (if itemsPool p = [] then Some (placeholder p)
      else let i = \<lfloor>r * real (length (itemsPool p))\<rfloor> in
        if 0 \<le> i \<and> i < int (length (itemsPool p)) then Some (itemsPool p ! nat i)
        else None)"

text \<open>
  \<^verbatim>\<open>generateItems(count)\<close>. The values of \<^verbatim>\<open>Math.random()\<close> during one call of
  \<^verbatim>\<open>spin\<close> are the stream \<open>rnd\<close>; \<open>off\<close> counts the draws already made.
\<close>

definition generateItems :: "'a props \<Rightarrow> (nat \<Rightarrow> real) \<Rightarrow> nat \<Rightarrow> int \<Rightarrow> 'a option list" where
  "generateItems p rnd off count = map (\<lambda>i. pickRandom p (rnd (off + i))) [0..<nat count]"

text \<open>
  \<^verbatim>\<open>xs[i] = v\<close> on an array, as seen by a later spread: a negative index sets a property
  that is no element, an index past the end extends the array with holes.
\<close>

definition array_set :: "'a option list \<Rightarrow> int \<Rightarrow> 'a option \<Rightarrow> 'a option list" where
  "array_set xs i v =
     (if i < 0 then xs
      else if nat i < length xs then xs[nat i := v]
      else xs @ replicate (nat i - length xs) None @ [v])"

text \<open>The \<^verbatim>\<open>updatedItems\<close> of \<^verbatim>\<open>spin\<close>.\<close>

definition reelItems :: "'a props \<Rightarrow> (nat \<Rightarrow> real) \<Rightarrow> 'a option list" where
  "reelItems p rnd =
     (if isForced p then
        let base = generateItems p rnd 0 (forcedBaseCount p);
            tail = generateItems p rnd (length base) (forcedTailCount p)
        in array_set base (forcedTargetIndex p) (forcedResult p) @ tail
      else generateItems p rnd 0 (reelItemCount p))"

text \<open>The number of \<^verbatim>\<open>Math.random()\<close> calls made while the sequence was generated.\<close>

definition drawsUsed :: "'a props \<Rightarrow> nat" where
  "drawsUsed p =
     (if isForced p then nat (forcedBaseCount p) + nat (forcedTailCount p)
      else nat (reelItemCount p))"

subsection \<open>The spin target\<close>

definition centerIndexOf :: "'a option list \<Rightarrow> int" where
  "centerIndexOf xs = int (length xs) div 2"

definition targetIndexOf :: "'a props \<Rightarrow> 'a option list \<Rightarrow> int" where
  "targetIndexOf p xs = (if isForced p then forcedTargetIndex p else int (length xs) - 5)"

definition randomOffset :: "'a props \<Rightarrow> real \<Rightarrow> real" where
  "randomOffset p r = (r - 1 / 2) * 2 * itemTotal p * STOP_OFFSET_RATIO"

definition perfectTargetTranslate :: "'a props \<Rightarrow> 'a option list \<Rightarrow> real" where
  "perfectTargetTranslate p xs =
     (let itemsToMove = targetIndexOf p xs - centerIndexOf xs;
          moveDistance = real_of_int itemsToMove * itemTotal p
      in 0 - moveDistance)"

definition targetTranslateOf :: "'a props \<Rightarrow> 'a option list \<Rightarrow> real \<Rightarrow> real" where
  "targetTranslateOf p xs r = perfectTargetTranslate p xs + randomOffset p r"

text \<open>
  What the closures scheduled by one call of \<^verbatim>\<open>spin\<close> capture: the props of that
  render, the token, the sequence and the jittered target.
\<close>

record 'a closure =
  cl_props :: "'a props"
  spinToken :: nat
  updatedItems :: "'a option list"
  targetTranslate :: real

definition minMs :: "'a closure \<Rightarrow> real" where
  "minMs cl = duration (cl_props cl) + twistDuration (cl_props cl)"

definition centerIndex :: "'a closure \<Rightarrow> int" where
  "centerIndex cl = centerIndexOf (updatedItems cl)"

text \<open>
  \<^verbatim>\<open>closestIndex\<close> of the unforced branch of \<^verbatim>\<open>animate\<close>, before clamping:
  \<^verbatim>\<open>Math.round(centerIndex - targetTranslate / itemTotal)\<close>.
\<close>

definition closestIndex :: "'a closure \<Rightarrow> jsnum" where
  "closestIndex cl =
     (case js_div (targetTranslate cl) (itemTotal (cl_props cl)) of
        Fin q \<Rightarrow> Fin (real_of_int (round (real_of_int (centerIndex cl) - q)))
      | PInf \<Rightarrow> NInf
      | NInf \<Rightarrow> PInf
      | NaN \<Rightarrow> NaN)"

text \<open>
  \<^verbatim>\<open>Math.max(0, Math.min(x, hi))\<close> for an integer-valued or non-finite \<open>x\<close>; \<open>None\<close> is
  \<^verbatim>\<open>NaN\<close>.
\<close>

fun clampIndex :: "jsnum \<Rightarrow> int \<Rightarrow> int option" where
  "clampIndex (Fin x) hi = Some (max 0 (min \<lfloor>x\<rfloor> hi))"
| "clampIndex PInf hi = Some (max 0 hi)"
| "clampIndex NInf hi = Some 0"
| "clampIndex NaN hi = None"

text \<open>\<^verbatim>\<open>clampedClosestIndex\<close> of \<^verbatim>\<open>animate\<close>.\<close>

definition clampedClosestIndex :: "'a closure \<Rightarrow> int option" where
  "clampedClosestIndex cl =
     (let hi = int (length (updatedItems cl)) - 1 in
      if isForced (cl_props cl)
      then clampIndex (Fin (real_of_int (forcedTargetIndex (cl_props cl)))) hi
      else clampIndex (closestIndex cl) hi)"

subsection \<open>Motion profile\<close>

text \<open>
  The translate value a frame of \<^verbatim>\<open>animate\<close> writes, \<open>elapsed\<close> milliseconds after
  the start of the phase; \<open>None\<close> when the progress is not finite.
\<close>

definition startTranslate :: real where
  "startTranslate = 0"

definition currentTranslateValue :: "'a closure \<Rightarrow> real \<Rightarrow> real option" where
  "currentTranslateValue cl elapsed =
     (case js_min1 (js_div elapsed (duration (cl_props cl))) of
        Fin progress \<Rightarrow>
          (let easedProgress = 1 - (1 - progress) ^ 3
           in Some (startTranslate + (targetTranslate cl - startTranslate) * easedProgress))
      | _ \<Rightarrow> None)"

text \<open>
  \<^verbatim>\<open>perfectPositionForClosestItem\<close> and \<^verbatim>\<open>offsetToPerfect\<close> for a resolved index.
\<close>

definition perfectPositionForClosestItem :: "'a closure \<Rightarrow> int \<Rightarrow> real" where
  "perfectPositionForClosestItem cl idx =
     (let itemOffsetFromCenter = real_of_int (idx - centerIndex cl) * itemTotal (cl_props cl)
      in - itemOffsetFromCenter)"

definition offsetToPerfect :: "'a closure \<Rightarrow> int \<Rightarrow> real" where
  "offsetToPerfect cl idx = perfectPositionForClosestItem cl idx - targetTranslate cl"

text \<open>The translate value a frame of \<^verbatim>\<open>animateTwistBack\<close> writes.\<close>

definition twistBackCurrentPosition :: "'a closure \<Rightarrow> int option \<Rightarrow> real \<Rightarrow> real option" where
  "twistBackCurrentPosition cl idx twistBackElapsed =
     (case (idx, js_min1 (js_div twistBackElapsed (twistDuration (cl_props cl)))) of
        (Some i, Fin twistBackProgress) \<Rightarrow>
          (let twistBackEased = 1 - (1 - twistBackProgress) ^ 3;
               twistBackStartPosition = targetTranslate cl
           in Some (twistBackStartPosition + offsetToPerfect cl i * twistBackEased))
      | _ \<Rightarrow> None)"

section \<open>The component and its host\<close>

text \<open>
  A deferred unit of work: the body of the zero-delay start timer, a frame of
  \<^verbatim>\<open>animate\<close> (with its \<^verbatim>\<open>startTime\<close>), a frame of \<^verbatim>\<open>animateTwistBack\<close> (with
  its \<^verbatim>\<open>twistBackStartTime\<close> and the resolved index), and the timer bodies that call
  \<^verbatim>\<open>completeOnce(selectedIndex)\<close>.
\<close>

datatype 'a task =
    StartTask "'a closure"
  | AnimateTask "'a closure" real
  | TwistBackTask "'a closure" real "int option"
  | CompleteTask "'a closure" "int option"

datatype 'a callback = SpinStart | SpinEnd "'a option"

text \<open>
  The refs and React state of one mounted component, and the part of the host it talks
  to: the pending timeouts (handle, due time, body), the pending animation frames, the
  next free handle, and the log of callbacks invoked, each with the wall-clock reading
  at the call.
\<close>

record 'a state =
  isSpinningRef :: bool
  spinTokenRef :: nat
  completedTokenRef :: "nat option"
  spinStartedAtRef :: real
  animationFrameRef :: "nat option"
  startTimeoutRef :: "nat option"
  finishTimeoutRef :: "nat option"
  twistFinishTimeoutRef :: "nat option"
  rafTickRef :: nat
  isSpinning :: bool
  items :: "'a option list"
  translate :: "real option"
  timers :: "(nat \<times> real \<times> 'a task) list"
  frames :: "(nat \<times> 'a task) list"
  nextHandle :: nat
  trace :: "(real \<times> 'a callback) list"

text \<open>
  The clock readings during one host callback: \<^verbatim>\<open>performance.now()\<close> (\<open>None\<close> when
  \<^verbatim>\<open>performance\<close> is undefined) and \<^verbatim>\<open>Date.now()\<close>. Synchronous code takes no time.
\<close>

record clocks =
  perfNow :: "real option"
  dateNow :: real

definition wallNow :: "clocks \<Rightarrow> real" where
  "wallNow ck = (case perfNow ck of Some t \<Rightarrow> t | None \<Rightarrow> dateNow ck)"

definition initial :: "'a state" where
  "initial =
     \<lparr>isSpinningRef = False, spinTokenRef = 0, completedTokenRef = None,
      spinStartedAtRef = 0, animationFrameRef = None, startTimeoutRef = None,
      finishTimeoutRef = None, twistFinishTimeoutRef = None, rafTickRef = 0,
      isSpinning = False, items = [], translate = Some 0, timers = [], frames = [],
      nextHandle = 1, trace = []\<rparr>"

subsection \<open>Host primitives\<close>

definition cancelAnimationFrame :: "nat \<Rightarrow> 'a state \<Rightarrow> 'a state" where
  "cancelAnimationFrame h s = s\<lparr>frames := filter (\<lambda>e. fst e \<noteq> h) (frames s)\<rparr>"

definition clearTimeout :: "nat \<Rightarrow> 'a state \<Rightarrow> 'a state" where
  "clearTimeout h s = s\<lparr>timers := filter (\<lambda>e. fst e \<noteq> h) (timers s)\<rparr>"

text \<open>
  \<^verbatim>\<open>requestAnimationFrame\<close> and \<^verbatim>\<open>setTimeout\<close> return the new handle with the
  state.
\<close>

definition requestAnimationFrame :: "'a task \<Rightarrow> 'a state \<Rightarrow> nat \<times> 'a state" where
  "requestAnimationFrame t s =
     (nextHandle s, s\<lparr>frames := frames s @ [(nextHandle s, t)], nextHandle := nextHandle s + 1\<rparr>)"

definition setTimeout :: "'a task \<Rightarrow> real \<Rightarrow> clocks \<Rightarrow> 'a state \<Rightarrow> nat \<times> 'a state" where
  "setTimeout t delay ck s =
     (nextHandle s,
      s\<lparr>timers := timers s @ [(nextHandle s, wallNow ck + delay, t)],
        nextHandle := nextHandle s + 1\<rparr>)"

subsection \<open>The closures of \<^verbatim>\<open>spin\<close>\<close>

definition completeOnce :: "'a closure \<Rightarrow> int option \<Rightarrow> clocks \<Rightarrow> 'a state \<Rightarrow> 'a state" where
  "completeOnce cl selectedIndex ck s =
     (if spinToken cl \<noteq> spinTokenRef s then s
      else if completedTokenRef s = Some (spinToken cl) then s
      else
        let now = wallNow ck;
            elapsed = now - spinStartedAtRef s
        in if elapsed < minMs cl then
             let remaining = max 0 \<lceil>minMs cl - elapsed\<rceil>;
                 (h, s1) = setTimeout (CompleteTask cl selectedIndex) (real_of_int remaining) ck s
             in s1\<lparr>finishTimeoutRef := Some h\<rparr>
           else
             let s1 = s\<lparr>completedTokenRef := Some (spinToken cl)\<rparr>;
                 s2 = (case selectedIndex of
                         Some i \<Rightarrow>
                           if 0 \<le> i \<and> i < int (length (updatedItems cl)) \<and> onSpinEnd (cl_props cl)
                           then s1\<lparr>trace := trace s1 @ [(now, SpinEnd (updatedItems cl ! nat i))]\<rparr>
                           else s1
                       | None \<Rightarrow> s1)
             in s2\<lparr>isSpinningRef := False, isSpinning := False\<rparr>)"

text \<open>
  The translate value is written to React state on every second frame
  (\<^verbatim>\<open>rafTickRef.current % 2 === 0\<close>).
\<close>

definition publishFrame :: "real option \<Rightarrow> 'a state \<Rightarrow> 'a state" where
  "publishFrame v s =
     (let s1 = s\<lparr>rafTickRef := rafTickRef s + 1\<rparr>
      in if rafTickRef s1 mod 2 = 0 then s1\<lparr>translate := v\<rparr> else s1)"

definition animateTwistBack ::
  "'a closure \<Rightarrow> real \<Rightarrow> int option \<Rightarrow> clocks \<Rightarrow> 'a state \<Rightarrow> 'a state" where
  "animateTwistBack cl twistBackStartTime idx ck s =
     (if spinToken cl \<noteq> spinTokenRef s then s
      else
        let twistBackElapsed = dateNow ck - twistBackStartTime;
            twistBackProgress = js_min1 (js_div twistBackElapsed (twistDuration (cl_props cl)));
            pos = twistBackCurrentPosition cl idx twistBackElapsed;
            s1 = publishFrame pos s
        in if js_lt1 twistBackProgress then
             let (h, s2) = requestAnimationFrame (TwistBackTask cl twistBackStartTime idx) s1
             in s2\<lparr>animationFrameRef := Some h\<rparr>
           else
             let s2 = s1\<lparr>translate := pos\<rparr>;
                 (h, s3) = setTimeout (CompleteTask cl idx) 50 ck s2
             in s3\<lparr>twistFinishTimeoutRef := Some h\<rparr>)"

definition animate :: "'a closure \<Rightarrow> real \<Rightarrow> clocks \<Rightarrow> 'a state \<Rightarrow> 'a state" where
  "animate cl startTime ck s =
     (if spinToken cl \<noteq> spinTokenRef s then s
      else
        let elapsed = dateNow ck - startTime;
            progress = js_min1 (js_div elapsed (duration (cl_props cl)));
            s1 = publishFrame (currentTranslateValue cl elapsed) s
        in if js_lt1 progress then
             let (h, s2) = requestAnimationFrame (AnimateTask cl startTime) s1
             in s2\<lparr>animationFrameRef := Some h\<rparr>
           else
             let twistBackStartTime = dateNow ck;
                 (h, s2) = requestAnimationFrame
                             (TwistBackTask cl twistBackStartTime (clampedClosestIndex cl)) s1
             in s2\<lparr>animationFrameRef := Some h\<rparr>)"

text \<open>The body of the zero-delay timer that \<^verbatim>\<open>spin\<close> sets.\<close>

definition startAnimation :: "'a closure \<Rightarrow> clocks \<Rightarrow> 'a state \<Rightarrow> 'a state" where
  "startAnimation cl ck s =
     (let startTime = dateNow ck;
          (h, s1) = requestAnimationFrame (AnimateTask cl startTime) s
      in s1\<lparr>animationFrameRef := Some h\<rparr>)"

subsection \<open>\<^verbatim>\<open>spin\<close> and the cleanup\<close>

text \<open>Lines 147 to 157: cancel the pending frame and the three timeouts.\<close>

definition cancelPending :: "'a state \<Rightarrow> 'a state" where
  "cancelPending s =
     (let s1 = (case animationFrameRef s of
                  Some h \<Rightarrow> (cancelAnimationFrame h s)\<lparr>animationFrameRef := None\<rparr>
                | None \<Rightarrow> s);
          s2 = s1\<lparr>rafTickRef := 0\<rparr>;
          s3 = (case startTimeoutRef s2 of
                  Some h \<Rightarrow> (clearTimeout h s2)\<lparr>startTimeoutRef := None\<rparr>
                | None \<Rightarrow> s2);
          s4 = (case finishTimeoutRef s3 of
                  Some h \<Rightarrow> (clearTimeout h s3)\<lparr>finishTimeoutRef := None\<rparr>
                | None \<Rightarrow> s3)
      in (case twistFinishTimeoutRef s4 of
            Some h \<Rightarrow> (clearTimeout h s4)\<lparr>twistFinishTimeoutRef := None\<rparr>
          | None \<Rightarrow> s4))"

text \<open>
  The closure data of a call of \<^verbatim>\<open>spin\<close> that mints token \<open>tok\<close>. The draw after
  those of the sequence is the jitter. \<^verbatim>\<open>preloadImages\<close> touches the image cache only
  and is left out; it reads every entry of the sequence, which is an item as long as
  \<^verbatim>\<open>Math.random()\<close> keeps to \<open>[0, 1)\<close>.
\<close>

definition spinClosure :: "'a props \<Rightarrow> (nat \<Rightarrow> real) \<Rightarrow> nat \<Rightarrow> 'a closure" where
  "spinClosure p rnd tok =
     (let xs = reelItems p rnd
      in \<lparr>cl_props = p, spinToken = tok, updatedItems = xs,
          targetTranslate = targetTranslateOf p xs (rnd (drawsUsed p))\<rparr>)"

text \<open>
  Lines 140 to 145: mark the spin live, record its start, call \<^verbatim>\<open>onSpinStart\<close>. The
  log records a callback only when the caller supplied it.
\<close>

definition beginSpin :: "'a props \<Rightarrow> clocks \<Rightarrow> 'a state \<Rightarrow> 'a state" where
  "beginSpin p ck s =
     (let now = wallNow ck;
          s1 = s\<lparr>isSpinningRef := True, completedTokenRef := None,
                 spinStartedAtRef := now, isSpinning := True\<rparr>
      in if onSpinStart p then s1\<lparr>trace := trace s1 @ [(now, SpinStart)]\<rparr> else s1)"

definition spin :: "'a props \<Rightarrow> (nat \<Rightarrow> real) \<Rightarrow> clocks \<Rightarrow> 'a state \<Rightarrow> 'a state" where
  "spin p rnd ck s =
     (if isSpinningRef s \<or> itemsPool p = [] then s
      else
        let s2 = beginSpin p ck s;
            s3 = cancelPending s2;
            tok = spinTokenRef s3 + 1;
            s4 = s3\<lparr>spinTokenRef := tok, translate := Some 0\<rparr>;
            cl = spinClosure p rnd tok;
            s5 = s4\<lparr>items := updatedItems cl\<rparr>;
            (h, s6) = setTimeout (StartTask cl) 0 ck s5
        in s6\<lparr>startTimeoutRef := Some h\<rparr>)"

text \<open>The cleanup of the mount effect (lines 327 to 339).\<close>

definition unmount :: "'a state \<Rightarrow> 'a state" where
  "unmount s =
     (let s1 = (case animationFrameRef s of Some h \<Rightarrow> cancelAnimationFrame h s | None \<Rightarrow> s);
          s2 = (case startTimeoutRef s1 of Some h \<Rightarrow> clearTimeout h s1 | None \<Rightarrow> s1);
          s3 = (case finishTimeoutRef s2 of Some h \<Rightarrow> clearTimeout h s2 | None \<Rightarrow> s2);
          s4 = (case twistFinishTimeoutRef s3 of Some h \<Rightarrow> clearTimeout h s3 | None \<Rightarrow> s3)
      in s4\<lparr>completedTokenRef := None, isSpinningRef := False\<rparr>)"

subsection \<open>The event loop\<close>

fun runTask :: "'a task \<Rightarrow> clocks \<Rightarrow> 'a state \<Rightarrow> 'a state" where
  "runTask (StartTask cl) ck s = startAnimation cl ck s"
| "runTask (AnimateTask cl startTime) ck s = animate cl startTime ck s"
| "runTask (TwistBackTask cl twistBackStartTime idx) ck s =
     animateTwistBack cl twistBackStartTime idx ck s"
| "runTask (CompleteTask cl selectedIndex) ck s = completeOnce cl selectedIndex ck s"

text \<open>
  What the host can do to the component: the caller invokes \<^verbatim>\<open>spin\<close> (a closure over
  the props of the latest render, drawing from a stream of random numbers), a pending
  timeout or animation frame fires, or the component is unmounted. Firing a handle that
  is not pending does nothing. The host may fire a pending callback at any clock
  reading.
\<close>

datatype 'a host_event =
    CallSpin "'a props" "nat \<Rightarrow> real"
  | FireTimer nat
  | FireFrame nat
  | Unmount

fun step :: "clocks \<times> 'a host_event \<Rightarrow> 'a state \<Rightarrow> 'a state" where
  "step (ck, CallSpin p rnd) s = spin p rnd ck s"
| "step (ck, FireTimer h) s =
     (case map_of (timers s) h of
        Some (due, t) \<Rightarrow> runTask t ck (clearTimeout h s)
      | None \<Rightarrow> s)"
| "step (ck, FireFrame h) s =
     (case map_of (frames s) h of
        Some t \<Rightarrow> runTask t ck (cancelAnimationFrame h s)
      | None \<Rightarrow> s)"
| "step (ck, Unmount) s = unmount s"

definition run :: "(clocks \<times> 'a host_event) list \<Rightarrow> 'a state \<Rightarrow> 'a state" where
  "run es s = fold step es s"

section \<open>A host that fires everything\<close>

text \<open>
  A host that keeps the event loop going: it fires the pending timeout once its delay has
  passed, and otherwise the pending animation frame \<open>dt\<close> milliseconds after the
  previous callback. \<open>c\<close> is the reading of \<^verbatim>\<open>performance.now()\<close>, \<open>date c\<close> the
  reading of \<^verbatim>\<open>Date.now()\<close> at that moment.
\<close>

definition hostClocks :: "(real \<Rightarrow> real) \<Rightarrow> real \<Rightarrow> clocks" where
  "hostClocks date c = \<lparr>perfNow = Some c, dateNow = date c\<rparr>"

fun hostStep :: "real \<Rightarrow> (real \<Rightarrow> real) \<Rightarrow> 'a state \<times> real \<Rightarrow> 'a state \<times> real" where
  "hostStep dt date (s, c) =
     (case timers s of
        (h, due, t) # _ \<Rightarrow>
          (let c' = max c due in (step (hostClocks date c', FireTimer h) s, c'))
      | [] \<Rightarrow>
          (case frames s of
             (h, t) # _ \<Rightarrow> (let c' = c + dt in (step (hostClocks date c', FireFrame h) s, c'))
           | [] \<Rightarrow> (s, c)))"

definition hostRun ::
  "nat \<Rightarrow> real \<Rightarrow> (real \<Rightarrow> real) \<Rightarrow> 'a state \<times> real \<Rightarrow> 'a state \<times> real" where
  "hostRun n dt date = (hostStep dt date) ^^ n"

fun isCallSpin :: "'a host_event \<Rightarrow> bool" where
  "isCallSpin (CallSpin p rnd) = True"
| "isCallSpin (FireTimer h) = False"
| "isCallSpin (FireFrame h) = False"
| "isCallSpin Unmount = False"

section \<open>Invariants\<close>

text \<open>The deferred work the host still holds.\<close>

definition pending :: "'a state \<Rightarrow> 'a task list" where
  "pending s = map (\<lambda>e. snd (snd e)) (timers s) @ map snd (frames s)"

definition quiet :: "'a state \<Rightarrow> bool" where
  "quiet s \<longleftrightarrow> timers s = [] \<and> frames s = []"

text \<open>
  At most one callback is pending, and the ref that the cleanup reads holds its handle.
\<close>

definition tracked :: "'a state \<Rightarrow> bool" where
  "tracked s \<longleftrightarrow>
     length (timers s) + length (frames s) \<le> 1 \<and>
     (\<forall>e \<in> set (timers s).
        startTimeoutRef s = Some (fst e) \<or> finishTimeoutRef s = Some (fst e) \<or>
        twistFinishTimeoutRef s = Some (fst e)) \<and>
     (\<forall>e \<in> set (frames s). animationFrameRef s = Some (fst e))"

text \<open>A task scheduled by the spin whose closure is \<open>cl\<close>.\<close>

fun taskFor :: "'a closure \<Rightarrow> 'a task \<Rightarrow> bool" where
  "taskFor cl (StartTask c) = (c = cl)"
| "taskFor cl (AnimateTask c st) = (c = cl)"
| "taskFor cl (TwistBackTask c st i) = (c = cl \<and> i = clampedClosestIndex cl)"
| "taskFor cl (CompleteTask c i) = (c = cl \<and> i = clampedClosestIndex cl)"

text \<open>
  The log entries of one spin: what \<^verbatim>\<open>onSpinStart?.()\<close> adds at time \<open>t\<close>, and what
  the completing branch of \<^verbatim>\<open>completeOnce(clampedClosestIndex)\<close> adds at time \<open>t\<close>.
\<close>

definition startEvents :: "'a props \<Rightarrow> real \<Rightarrow> (real \<times> 'a callback) list" where
  "startEvents p t = (if onSpinStart p then [(t, SpinStart)] else [])"

definition endEvents :: "'a closure \<Rightarrow> real \<Rightarrow> (real \<times> 'a callback) list" where
  "endEvents cl t =
     (case clampedClosestIndex cl of
        Some i \<Rightarrow>
          if 0 \<le> i \<and> i < int (length (updatedItems cl)) \<and> onSpinEnd (cl_props cl)
          then [(t, SpinEnd (updatedItems cl ! nat i))] else []
      | None \<Rightarrow> [])"

text \<open>
  The state of the spin with closure \<open>cl\<close>, started at \<open>t0\<close> with log \<open>tr1\<close>: either
  nothing was reported yet, or the result was reported once, not before the minimum
  duration, and nothing is pending.
\<close>

definition session ::
  "'a closure \<Rightarrow> real \<Rightarrow> (real \<times> 'a callback) list \<Rightarrow> 'a state \<Rightarrow> bool" where
  "session cl t0 tr1 s \<longleftrightarrow>
     spinStartedAtRef s = t0 \<and>
     (\<forall>t \<in> set (pending s). taskFor cl t) \<and>
     (trace s = tr1 \<or>
      (\<exists>t. t0 + minMs cl \<le> t \<and> trace s = tr1 @ endEvents cl t \<and> quiet s))"

definition sessionInv ::
  "'a closure \<Rightarrow> real \<Rightarrow> (real \<times> 'a callback) list \<Rightarrow> 'a state \<Rightarrow> bool" where
  "sessionInv cl t0 tr1 s \<longleftrightarrow>
     tracked s \<and> spinToken cl \<le> spinTokenRef s \<and>
     (spinTokenRef s = spinToken cl \<longrightarrow> session cl t0 tr1 s)"

text \<open>A spin that has not reported yet, and the single callback it waits for.\<close>

definition live :: "'a closure \<Rightarrow> real \<Rightarrow> (real \<times> 'a callback) list \<Rightarrow> 'a state \<Rightarrow> bool" where
  "live cl t0 tr1 s \<longleftrightarrow>
     spinTokenRef s = spinToken cl \<and> spinStartedAtRef s = t0 \<and>
     completedTokenRef s = None \<and> trace s = tr1"

definition onlyTimer :: "'a task \<Rightarrow> 'a state \<Rightarrow> bool" where
  "onlyTimer t s \<longleftrightarrow> frames s = [] \<and> map (\<lambda>e. snd (snd e)) (timers s) = [t]"

definition onlyFrame :: "'a task \<Rightarrow> 'a state \<Rightarrow> bool" where
  "onlyFrame t s \<longleftrightarrow> timers s = [] \<and> map snd (frames s) = [t]"

section \<open>The motion profile as the specification words it\<close>

definition spec_ease :: "real \<Rightarrow> real" where
  "spec_ease p = 1 - (1 - p) ^ 3"

definition spec_position :: "real \<Rightarrow> real \<Rightarrow> real \<Rightarrow> real \<Rightarrow> real" where
  "spec_position start target t d = start + (target - start) * spec_ease (min (t / d) 1)"

section \<open>A concrete reel\<close>

text \<open>
  The example of the specification: a pool of three items, 35 reel items, the forced
  result at index 30, a spin of 2500 ms and a twist-back of 400 ms.
\<close>

datatype demo_item = ItemA | ItemB | ItemC | Blank

definition demoProps :: "demo_item props" where
  "demoProps =
     \<lparr>itemsPool = [ItemA, ItemB, ItemC], forcedResult = Some ItemB, duration = 2500,
      twistDuration = 400, itemSize = 80, itemGap = 20, reelItemCount = DEFAULT_REEL_ITEMS,
      forcedTargetIndex = DEFAULT_FORCED_TARGET_INDEX, onSpinStart = True, onSpinEnd = True,
      placeholder = Blank\<rparr>"

definition demoRandom :: "nat \<Rightarrow> real" where
  "demoRandom n = real (n mod 7 + 1) / 8"

definition demoDate :: "real \<Rightarrow> real" where
  "demoDate c = c + 1000"

definition fastDate :: "real \<Rightarrow> real" where
  "fastDate c = 2 * c"

definition demoClocks :: "real \<Rightarrow> clocks" where
  "demoClocks c = hostClocks demoDate c"

text \<open>
  The callbacks of one spin, fired by hand: the start timer, two frames of the spin
  phase, two frames of the twist-back, and the timer that reports the result.
\<close>

definition demoFires :: "(clocks \<times> demo_item host_event) list" where
  "demoFires =
     [(demoClocks 0, FireTimer 1), (demoClocks 16, FireFrame 2), (demoClocks 2500, FireFrame 3),
      (demoClocks 2516, FireFrame 4), (demoClocks 2916, FireFrame 5), (demoClocks 2966, FireTimer 6)]"

section \<open>Auxiliary facts\<close>

lemma round_jitter:
  fixes k :: int and x :: real
  assumes "\<bar>x\<bar> < 1 / 2"
  shows "round (real_of_int k - x) = k"
proof -
  have "\<lfloor>real_of_int k + (1 / 2 - x)\<rfloor> = k"
    using assms by (intro floor_unique) linarith+
  moreover have "real_of_int k - x + 1 / 2 = real_of_int k + (1 / 2 - x)" by simp
  ultimately show ?thesis unfolding round_def by metis
qed

lemma randomOffset_ratio:
  assumes "itemTotal p \<noteq> 0"
  shows "randomOffset p r / itemTotal p = (r - 1 / 2) * (49 / 50)"
  using assms by (simp add: randomOffset_def STOP_OFFSET_RATIO_def field_simps)

lemma jitter_ratio_bound:
  fixes r :: real
  assumes "0 \<le> r" "r < 1"
  shows "\<bar>(r - 1 / 2) * (49 / 50)\<bar> \<le> 49 / 100"
proof -
  have "- (49 / 100) \<le> (r - 1 / 2) * (49 / 50)" "(r - 1 / 2) * (49 / 50) \<le> 49 / 100"
    using assms by simp_all
  then show ?thesis by linarith
qed

lemma targetTranslate_ratio:
  assumes "itemTotal p \<noteq> 0"
  shows "real_of_int (centerIndexOf xs) - targetTranslateOf p xs r / itemTotal p
       = real_of_int (targetIndexOf p xs) - (r - 1 / 2) * (49 / 50)"
proof -
  have "targetTranslateOf p xs r / itemTotal p
      = - real_of_int (targetIndexOf p xs - centerIndexOf xs) + randomOffset p r / itemTotal p"
    using assms by (simp add: targetTranslateOf_def perfectTargetTranslate_def Let_def field_simps)
  then show ?thesis using assms by (simp add: randomOffset_ratio)
qed

lemma closestIndex_spinClosure:
  assumes "itemTotal p \<noteq> 0" "0 \<le> rnd (drawsUsed p)" "rnd (drawsUsed p) < 1"
  shows "closestIndex (spinClosure p rnd tok) = Fin (real_of_int (targetIndexOf p (reelItems p rnd)))"
proof -
  let ?r = "rnd (drawsUsed p)"
  have "\<bar>(?r - 1 / 2) * (49 / 50)\<bar> < 1 / 2"
    using jitter_ratio_bound [OF assms(2,3)] by linarith
  then have "round (real_of_int (targetIndexOf p (reelItems p rnd)) - (?r - 1 / 2) * (49 / 50))
      = targetIndexOf p (reelItems p rnd)"
    by (rule round_jitter)
  then show ?thesis
    using assms(1) targetTranslate_ratio [OF assms(1), of "reelItems p rnd" ?r]
    by (simp add: closestIndex_def spinClosure_def Let_def js_div_def centerIndex_def)
qed

lemmas host_defs = cancelAnimationFrame_def clearTimeout_def requestAnimationFrame_def
  setTimeout_def

lemma quiet_cancelPending: "tracked s \<Longrightarrow> quiet (cancelPending s)"
  unfolding tracked_def quiet_def cancelPending_def Let_def host_defs
  by (cases "timers s"; cases "frames s") (auto split: option.splits)

lemma quiet_unmount: "tracked s \<Longrightarrow> quiet (unmount s)"
  unfolding tracked_def quiet_def unmount_def Let_def host_defs
  by (cases "timers s"; cases "frames s") (auto split: option.splits)

lemma quiet_clearTimeout:
  "tracked s \<Longrightarrow> map_of (timers s) h = Some x \<Longrightarrow> quiet (clearTimeout h s)"
  unfolding tracked_def quiet_def host_defs
  by (cases "timers s"; cases "frames s") (auto split: if_splits)

lemma quiet_cancelAnimationFrame:
  "tracked s \<Longrightarrow> map_of (frames s) h = Some x \<Longrightarrow> quiet (cancelAnimationFrame h s)"
  unfolding tracked_def quiet_def host_defs
  by (cases "timers s"; cases "frames s") (auto split: if_splits)

lemma tracked_runTask: "quiet s \<Longrightarrow> tracked (runTask t ck s)"
  unfolding tracked_def quiet_def
  by (cases t)
     (auto simp: startAnimation_def animate_def animateTwistBack_def completeOnce_def
        publishFrame_def Let_def host_defs split: option.splits prod.splits if_splits)

lemma cancelPending_fields [simp]:
  "spinTokenRef (cancelPending s) = spinTokenRef s"
  "trace (cancelPending s) = trace s"
  "isSpinningRef (cancelPending s) = isSpinningRef s"
  "spinStartedAtRef (cancelPending s) = spinStartedAtRef s"
  "completedTokenRef (cancelPending s) = completedTokenRef s"
  "nextHandle (cancelPending s) = nextHandle s"
  by (simp_all add: cancelPending_def Let_def host_defs split: option.splits)

lemma unmount_fields [simp]:
  "spinTokenRef (unmount s) = spinTokenRef s"
  "trace (unmount s) = trace s"
  "isSpinningRef (unmount s) = False"
  "spinStartedAtRef (unmount s) = spinStartedAtRef s"
  by (simp_all add: unmount_def Let_def host_defs split: option.splits)

lemma quiet_tracked: "quiet s \<Longrightarrow> tracked s"
  by (simp add: quiet_def tracked_def)

lemma quiet_pending: "quiet s \<Longrightarrow> pending s = []"
  by (simp add: quiet_def pending_def)

lemma spin_rejected: "isSpinningRef s \<or> itemsPool p = [] \<Longrightarrow> spin p rnd ck s = s"
  by (simp add: spin_def)

lemma beginSpin_fields [simp]:
  "spinTokenRef (beginSpin p ck s) = spinTokenRef s"
  "trace (beginSpin p ck s) = trace s @ startEvents p (wallNow ck)"
  "isSpinningRef (beginSpin p ck s) = True"
  "spinStartedAtRef (beginSpin p ck s) = wallNow ck"
  "timers (beginSpin p ck s) = timers s"
  "frames (beginSpin p ck s) = frames s"
  "nextHandle (beginSpin p ck s) = nextHandle s"
  by (simp_all add: beginSpin_def Let_def startEvents_def)

lemma tracked_beginSpin: "tracked s \<Longrightarrow> tracked (beginSpin p ck s)"
  by (simp add: tracked_def) (simp add: beginSpin_def Let_def)

lemma spin_accepted:
  assumes "\<not> isSpinningRef s" "itemsPool p \<noteq> []" "tracked s"
  shows "spinTokenRef (spin p rnd ck s) = spinTokenRef s + 1"
    and "tracked (spin p rnd ck s)"
    and "session (spinClosure p rnd (spinTokenRef s + 1)) (wallNow ck)
           (trace s @ startEvents p (wallNow ck)) (spin p rnd ck s)"
    and "isSpinningRef (spin p rnd ck s)"
proof -
  have "quiet (cancelPending (beginSpin p ck s))"
    using assms(3) by (intro quiet_cancelPending tracked_beginSpin)
  then have q': "timers (cancelPending (beginSpin p ck s)) = []"
    "frames (cancelPending (beginSpin p ck s)) = []"
    by (simp_all add: quiet_def)
  show "spinTokenRef (spin p rnd ck s) = spinTokenRef s + 1"
    using assms(1,2) by (simp add: spin_def Let_def host_defs split: prod.splits)
  show "tracked (spin p rnd ck s)"
    using assms(1,2) q'
    by (simp add: spin_def Let_def host_defs tracked_def split: prod.splits)
  show "session (spinClosure p rnd (spinTokenRef s + 1)) (wallNow ck)
           (trace s @ startEvents p (wallNow ck)) (spin p rnd ck s)"
    using assms(1,2) q'
    by (simp add: spin_def Let_def host_defs session_def pending_def split: prod.splits)
  show "isSpinningRef (spin p rnd ck s)"
    using assms(1,2) by (simp add: spin_def Let_def host_defs split: prod.splits)
qed

lemma runTask_token [simp]: "spinTokenRef (runTask t ck s) = spinTokenRef s"
  by (cases t)
     (auto simp: startAnimation_def animate_def animateTwistBack_def completeOnce_def
        publishFrame_def Let_def host_defs split: option.splits prod.splits if_splits)

lemma runTask_startedAt [simp]: "spinStartedAtRef (runTask t ck s) = spinStartedAtRef s"
  by (cases t)
     (auto simp: startAnimation_def animate_def animateTwistBack_def completeOnce_def
        publishFrame_def Let_def host_defs split: option.splits prod.splits if_splits)

lemma session_runTask:
  assumes "quiet s" "spinTokenRef s = spinToken cl" "spinStartedAtRef s = t0"
    "taskFor cl t" "trace s = tr1"
  shows "session cl t0 tr1 (runTask t ck s)"
proof (cases t)
  case (StartTask c)
  then show ?thesis using assms
    by (simp add: session_def pending_def quiet_def startAnimation_def Let_def host_defs
        split: prod.splits)
next
  case (AnimateTask c st)
  then show ?thesis using assms
    by (simp add: session_def pending_def quiet_def animate_def publishFrame_def Let_def
        host_defs split: prod.splits)
next
  case (TwistBackTask c st i)
  then show ?thesis using assms
    by (simp add: session_def pending_def quiet_def animateTwistBack_def publishFrame_def
        Let_def host_defs split: prod.splits)
next
  case (CompleteTask c i)
  then have ci: "c = cl" "i = clampedClosestIndex cl" using assms(4) by simp_all
  show ?thesis
  proof (cases "completedTokenRef s = Some (spinToken cl)")
    case True
    then show ?thesis using assms CompleteTask ci
      by (simp add: session_def pending_def quiet_def completeOnce_def)
  next
    case False
    show ?thesis
    proof (cases "wallNow ck - t0 < minMs cl")
      case True
      then show ?thesis using assms CompleteTask ci False
        by (simp add: session_def pending_def quiet_def completeOnce_def Let_def host_defs
            split: prod.splits)
    next
      case late: False
      have "trace (runTask t ck s) = tr1 @ endEvents cl (wallNow ck)"
        using assms CompleteTask ci False late
        by (simp add: completeOnce_def Let_def endEvents_def split: option.splits)
      moreover have "quiet (runTask t ck s)"
        using assms CompleteTask ci False late
        by (simp add: completeOnce_def Let_def quiet_def split: option.splits)
      moreover have "t0 + minMs cl \<le> wallNow ck" using late by simp
      ultimately show ?thesis using assms(3)
        by (auto simp: session_def quiet_pending)
    qed
  qed
qed

lemma clearTimeout_fields [simp]:
  "spinTokenRef (clearTimeout h s) = spinTokenRef s"
  "trace (clearTimeout h s) = trace s"
  "spinStartedAtRef (clearTimeout h s) = spinStartedAtRef s"
  "isSpinningRef (clearTimeout h s) = isSpinningRef s"
  by (simp_all add: host_defs)

lemma cancelAnimationFrame_fields [simp]:
  "spinTokenRef (cancelAnimationFrame h s) = spinTokenRef s"
  "trace (cancelAnimationFrame h s) = trace s"
  "spinStartedAtRef (cancelAnimationFrame h s) = spinStartedAtRef s"
  "isSpinningRef (cancelAnimationFrame h s) = isSpinningRef s"
  by (simp_all add: host_defs)

lemma tracked_step: "tracked s \<Longrightarrow> tracked (step e s)"
proof (cases e)
  case (Pair ck ev)
  assume tr: "tracked s"
  show ?thesis
  proof (cases ev)
    case (CallSpin p rnd)
    then show ?thesis using Pair tr spin_accepted(2) [of s p] spin_rejected [of s p]
      by (cases "isSpinningRef s \<or> itemsPool p = []") auto
  next
    case (FireTimer h)
    then show ?thesis using Pair tr
      by (auto split: option.splits intro!: tracked_runTask quiet_clearTimeout)
  next
    case (FireFrame h)
    then show ?thesis using Pair tr
      by (auto split: option.splits intro!: tracked_runTask quiet_cancelAnimationFrame)
  next
    case Unmount
    then show ?thesis using Pair tr by (simp add: quiet_unmount quiet_tracked)
  qed
qed

lemma token_step: "spinTokenRef s \<le> spinTokenRef (step e s)"
proof (cases e)
  case (Pair ck ev)
  show ?thesis
  proof (cases ev)
    case (CallSpin p rnd)
    then show ?thesis using Pair
      by (simp add: spin_def Let_def host_defs split: prod.splits)
  qed (use Pair in \<open>auto split: option.splits\<close>)
qed

lemma map_of_pending_timer:
  "map_of (timers s) h = Some (due, t) \<Longrightarrow> t \<in> set (pending s)"
  by (force simp: pending_def dest: map_of_SomeD)

lemma map_of_pending_frame:
  "map_of (frames s) h = Some t \<Longrightarrow> t \<in> set (pending s)"
  by (force simp: pending_def dest: map_of_SomeD)

lemma session_fire:
  assumes "session cl t0 tr1 s" "spinTokenRef s = spinToken cl" "t \<in> set (pending s)"
    "quiet s'" "spinTokenRef s' = spinTokenRef s" "spinStartedAtRef s' = spinStartedAtRef s"
    "trace s' = trace s"
  shows "session cl t0 tr1 (runTask t ck s')"
proof -
  have "\<not> quiet s" using assms(3) by (auto simp: quiet_def pending_def)
  then have "trace s = tr1" using assms(1) by (auto simp: session_def)
  moreover have "taskFor cl t" using assms(1,3) by (simp add: session_def)
  moreover have "spinStartedAtRef s = t0" using assms(1) by (simp add: session_def)
  ultimately show ?thesis using assms(2,4-7) by (intro session_runTask) simp_all
qed

lemma session_step:
  assumes "tracked s" "session cl t0 tr1 s" "spinTokenRef s = spinToken cl"
    "spinTokenRef (step e s) = spinToken cl"
  shows "session cl t0 tr1 (step e s)"
proof (cases e)
  case (Pair ck ev)
  show ?thesis
  proof (cases ev)
    case (CallSpin p rnd)
    have "spin p rnd ck s = s"
    proof (rule ccontr)
      assume "spin p rnd ck s \<noteq> s"
      then have "\<not> isSpinningRef s" "itemsPool p \<noteq> []" by (auto simp: spin_def)
      then have "spinTokenRef (spin p rnd ck s) = spinTokenRef s + 1"
        using assms(1) by (rule spin_accepted(1))
      then show False using assms(3,4) Pair CallSpin by simp
    qed
    then show ?thesis using Pair CallSpin assms(2) by simp
  next
    case (FireTimer h)
    show ?thesis
    proof (cases "map_of (timers s) h")
      case None
      then show ?thesis using Pair FireTimer assms(2) by simp
    next
      case (Some x)
      obtain due t where x: "x = (due, t)" by (cases x)
      have "session cl t0 tr1 (runTask t ck (clearTimeout h s))"
        using assms(1,2,3) Some x
        by (intro session_fire [of cl t0 tr1 s]) (auto intro: map_of_pending_timer quiet_clearTimeout)
      then show ?thesis using Pair FireTimer Some x by simp
    qed
  next
    case (FireFrame h)
    show ?thesis
    proof (cases "map_of (frames s) h")
      case None
      then show ?thesis using Pair FireFrame assms(2) by simp
    next
      case (Some t)
      have "session cl t0 tr1 (runTask t ck (cancelAnimationFrame h s))"
        using assms(1,2,3) Some
        by (intro session_fire [of cl t0 tr1 s]) (auto intro: map_of_pending_frame quiet_cancelAnimationFrame)
      then show ?thesis using Pair FireFrame Some by simp
    qed
  next
    case Unmount
    have "quiet (unmount s)" using assms(1) by (rule quiet_unmount)
    then show ?thesis using Pair Unmount assms(2)
      by (auto simp: session_def quiet_pending)
  qed
qed

lemma sessionInv_step: "sessionInv cl t0 tr1 s \<Longrightarrow> sessionInv cl t0 tr1 (step e s)"
  unfolding sessionInv_def
  using tracked_step [of s e] token_step [of s e] session_step [of s cl t0 tr1 e]
  by (metis le_antisym order_trans)

lemma sessionInv_run: "sessionInv cl t0 tr1 s \<Longrightarrow> sessionInv cl t0 tr1 (run es s)"
  unfolding run_def by (induction es arbitrary: s) (simp_all add: sessionInv_step)

lemma tracked_run: "tracked s \<Longrightarrow> tracked (run es s)"
  unfolding run_def by (induction es arbitrary: s) (simp_all add: tracked_step)

lemma tracked_initial: "tracked initial"
  by (simp add: tracked_def initial_def)

lemma onlyTimerE:
  assumes "onlyTimer t s"
  obtains h due where "timers s = [(h, due, t)]" "frames s = []"
  using assms unfolding onlyTimer_def by (cases "timers s") auto

lemma onlyFrameE:
  assumes "onlyFrame t s"
  obtains h where "frames s = [(h, t)]" "timers s = []"
  using assms unfolding onlyFrame_def by (cases "frames s") auto

lemma wallNow_hostClocks [simp]: "wallNow (hostClocks date c) = c"
  by (simp add: wallNow_def hostClocks_def)

lemma dateNow_hostClocks [simp]: "dateNow (hostClocks date c) = date c"
  by (simp add: hostClocks_def)

lemma js_progress_running: "0 \<le> d \<Longrightarrow> js_lt1 (js_min1 (js_div e d)) \<longleftrightarrow> e < d"
proof (cases "d = 0")
  case True
  then show ?thesis by (simp add: js_div_def)
next
  case False
  assume "0 \<le> d"
  with False have "0 < d" by simp
  then have "e / d < 1 \<longleftrightarrow> e < d" by simp
  then show ?thesis using False by (simp add: js_div_def min_less_iff_disj)
qed

lemma hostRun_0 [simp]: "hostRun 0 dt date x = x"
  by (simp add: hostRun_def)

lemma hostRun_Suc: "hostRun (Suc n) dt date x = hostRun n dt date (hostStep dt date x)"
  by (simp add: hostRun_def funpow_swap1)

lemma hostRun_add: "hostRun (n + m) dt date x = hostRun n dt date (hostRun m dt date x)"
  by (simp add: hostRun_def funpow_add)

lemma host_start:
  assumes "live cl t0 tr1 s" "onlyTimer (StartTask cl) s"
  shows "\<exists>s' c' st. hostStep dt date (s, c) = (s', c') \<and> live cl t0 tr1 s' \<and>
           onlyFrame (AnimateTask cl st) s'"
proof -
  obtain h due where "timers s = [(h, due, StartTask cl)]" "frames s = []"
    using assms(2) by (rule onlyTimerE)
  then show ?thesis using assms(1)
    by (simp add: live_def onlyFrame_def startAnimation_def Let_def host_defs)
qed

lemma host_animate:
  assumes "live cl t0 tr1 s" "onlyFrame (AnimateTask cl st) s" "0 \<le> duration (cl_props cl)"
  shows "\<exists>s'. hostStep dt date (s, c) = (s', c + dt) \<and> live cl t0 tr1 s' \<and>
           (if date (c + dt) - st < duration (cl_props cl)
            then onlyFrame (AnimateTask cl st) s'
            else onlyFrame (TwistBackTask cl (date (c + dt)) (clampedClosestIndex cl)) s')"
proof -
  obtain h where "frames s = [(h, AnimateTask cl st)]" "timers s = []"
    using assms(2) by (rule onlyFrameE)
  then show ?thesis using assms(1,3)
    by (simp add: live_def onlyFrame_def animate_def publishFrame_def Let_def host_defs
        js_progress_running)
qed

lemma host_twist:
  assumes "live cl t0 tr1 s" "onlyFrame (TwistBackTask cl st i) s"
    "0 \<le> twistDuration (cl_props cl)"
  shows "\<exists>s'. hostStep dt date (s, c) = (s', c + dt) \<and> live cl t0 tr1 s' \<and>
           (if date (c + dt) - st < twistDuration (cl_props cl)
            then onlyFrame (TwistBackTask cl st i) s'
            else onlyTimer (CompleteTask cl i) s')"
proof -
  obtain h where "frames s = [(h, TwistBackTask cl st i)]" "timers s = []"
    using assms(2) by (rule onlyFrameE)
  then show ?thesis using assms(1,3)
    by (simp add: live_def onlyFrame_def onlyTimer_def animateTwistBack_def publishFrame_def
        Let_def host_defs js_progress_running)
qed

lemma animate_finishes:
  assumes "0 < delta" "\<forall>c. date c + delta \<le> date (c + dt)" "0 \<le> duration (cl_props cl)"
  shows "live cl t0 tr1 s \<Longrightarrow> onlyFrame (AnimateTask cl st) s \<Longrightarrow>
         st + duration (cl_props cl) - date c \<le> real m * delta \<Longrightarrow>
         \<exists>n s' c' st'. hostRun n dt date (s, c) = (s', c') \<and> live cl t0 tr1 s' \<and>
           onlyFrame (TwistBackTask cl st' (clampedClosestIndex cl)) s'"
proof (induction m arbitrary: s c)
  case 0
  obtain s' where s': "hostStep dt date (s, c) = (s', c + dt)" "live cl t0 tr1 s'"
    "if date (c + dt) - st < duration (cl_props cl)
     then onlyFrame (AnimateTask cl st) s'
     else onlyFrame (TwistBackTask cl (date (c + dt)) (clampedClosestIndex cl)) s'"
    using host_animate [OF "0.prems"(1,2) assms(3)] by blast
  have "\<not> date (c + dt) - st < duration (cl_props cl)"
  proof -
    have "date c + delta \<le> date (c + dt)" using assms(2) by simp
    moreover have "st + duration (cl_props cl) - date c \<le> 0" using "0.prems"(3) by simp
    ultimately show ?thesis using assms(1) by linarith
  qed
  then have "onlyFrame (TwistBackTask cl (date (c + dt)) (clampedClosestIndex cl)) s'"
    using s'(3) by simp
  moreover have "hostRun 1 dt date (s, c) = (s', c + dt)"
    using s'(1) by (simp add: hostRun_def)
  ultimately show ?case using s'(2) by blast
next
  case (Suc m)
  obtain s' where s': "hostStep dt date (s, c) = (s', c + dt)" "live cl t0 tr1 s'"
    "if date (c + dt) - st < duration (cl_props cl)
     then onlyFrame (AnimateTask cl st) s'
     else onlyFrame (TwistBackTask cl (date (c + dt)) (clampedClosestIndex cl)) s'"
    using host_animate [OF Suc.prems(1,2) assms(3)] by blast
  have one: "hostRun 1 dt date (s, c) = (s', c + dt)"
    using s'(1) by (simp add: hostRun_def)
  show ?case
  proof (cases "date (c + dt) - st < duration (cl_props cl)")
    case False
    then show ?thesis using s' one by auto
  next
    case True
    then have f: "onlyFrame (AnimateTask cl st) s'" using s'(3) by simp
    have "st + duration (cl_props cl) - date (c + dt) \<le> real m * delta"
    proof -
      have "date c + delta \<le> date (c + dt)" using assms(2) by simp
      moreover have "real (Suc m) * delta = real m * delta + delta"
        by (simp add: algebra_simps)
      ultimately show ?thesis using Suc.prems(3) by linarith
    qed
    then obtain n s'' c'' st' where r: "hostRun n dt date (s', c + dt) = (s'', c'')"
      "live cl t0 tr1 s''" "onlyFrame (TwistBackTask cl st' (clampedClosestIndex cl)) s''"
      using Suc.IH [OF s'(2) f] by blast
    have "hostRun (n + 1) dt date (s, c) = (s'', c'')"
      using one r(1) by (simp only: hostRun_add)
    then show ?thesis using r(2,3) by blast
  qed
qed

lemma twist_finishes:
  assumes "0 < delta" "\<forall>c. date c + delta \<le> date (c + dt)" "0 \<le> twistDuration (cl_props cl)"
  shows "live cl t0 tr1 s \<Longrightarrow> onlyFrame (TwistBackTask cl st i) s \<Longrightarrow>
         st + twistDuration (cl_props cl) - date c \<le> real m * delta \<Longrightarrow>
         \<exists>n s' c'. hostRun n dt date (s, c) = (s', c') \<and> live cl t0 tr1 s' \<and>
           onlyTimer (CompleteTask cl i) s'"
proof (induction m arbitrary: s c)
  case 0
  obtain s' where s': "hostStep dt date (s, c) = (s', c + dt)" "live cl t0 tr1 s'"
    "if date (c + dt) - st < twistDuration (cl_props cl)
     then onlyFrame (TwistBackTask cl st i) s'
     else onlyTimer (CompleteTask cl i) s'"
    using host_twist [OF "0.prems"(1,2) assms(3)] by blast
  have "\<not> date (c + dt) - st < twistDuration (cl_props cl)"
  proof -
    have "date c + delta \<le> date (c + dt)" using assms(2) by simp
    moreover have "st + twistDuration (cl_props cl) - date c \<le> 0" using "0.prems"(3) by simp
    ultimately show ?thesis using assms(1) by linarith
  qed
  then have "onlyTimer (CompleteTask cl i) s'"
    using s'(3) by simp
  moreover have "hostRun 1 dt date (s, c) = (s', c + dt)"
    using s'(1) by (simp add: hostRun_def)
  ultimately show ?case using s'(2) by blast
next
  case (Suc m)
  obtain s' where s': "hostStep dt date (s, c) = (s', c + dt)" "live cl t0 tr1 s'"
    "if date (c + dt) - st < twistDuration (cl_props cl)
     then onlyFrame (TwistBackTask cl st i) s'
     else onlyTimer (CompleteTask cl i) s'"
    using host_twist [OF Suc.prems(1,2) assms(3)] by blast
  have one: "hostRun 1 dt date (s, c) = (s', c + dt)"
    using s'(1) by (simp add: hostRun_def)
  show ?case
  proof (cases "date (c + dt) - st < twistDuration (cl_props cl)")
    case False
    then show ?thesis using s' one by auto
  next
    case True
    then have f: "onlyFrame (TwistBackTask cl st i) s'" using s'(3) by simp
    have "st + twistDuration (cl_props cl) - date (c + dt) \<le> real m * delta"
    proof -
      have "date c + delta \<le> date (c + dt)" using assms(2) by simp
      moreover have "real (Suc m) * delta = real m * delta + delta"
        by (simp add: algebra_simps)
      ultimately show ?thesis using Suc.prems(3) by linarith
    qed
    then obtain n s'' c'' where r: "hostRun n dt date (s', c + dt) = (s'', c'')"
      "live cl t0 tr1 s''" "onlyTimer (CompleteTask cl i) s''"
      using Suc.IH [OF s'(2) f] by blast
    have "hostRun (n + 1) dt date (s, c) = (s'', c'')"
      using one r(1) by (simp only: hostRun_add)
    then show ?thesis using r(2,3) by blast
  qed
qed

lemma steps_bound:
  fixes x delta :: real
  assumes "0 < delta"
  shows "\<exists>m::nat. x \<le> real m * delta"
proof -
  obtain m :: nat where "x / delta \<le> real m" using real_arch_simple by blast
  then have "x \<le> real m * delta" using assms by (simp add: field_simps)
  then show ?thesis ..
qed

lemma host_complete_late:
  assumes "live cl t0 tr1 s" "timers s = [(h, due, CompleteTask cl (clampedClosestIndex cl))]"
    "frames s = []" "t0 + minMs cl \<le> max c due"
  shows "\<exists>s'. hostStep dt date (s, c) = (s', max c due) \<and>
           trace s' = tr1 @ endEvents cl (max c due) \<and> \<not> isSpinningRef s' \<and> quiet s'"
proof -
  have "\<not> max c due - t0 < minMs cl" using assms(4) by linarith
  then show ?thesis using assms(1-3)
    by (simp add: live_def completeOnce_def Let_def host_defs endEvents_def quiet_def
        split: option.splits)
qed

lemma host_complete_early:
  assumes "live cl t0 tr1 s" "timers s = [(h, due, CompleteTask cl i)]"
    "frames s = []" "max c due < t0 + minMs cl"
  shows "\<exists>s' h' due'. hostStep dt date (s, c) = (s', max c due) \<and> live cl t0 tr1 s' \<and>
           timers s' = [(h', due', CompleteTask cl i)] \<and> frames s' = [] \<and>
           t0 + minMs cl \<le> due'"
proof -
  have e: "max c due - t0 < minMs cl" using assms(4) by linarith
  have "minMs cl - (max c due - t0) \<le> real_of_int (max 0 \<lceil>minMs cl - (max c due - t0)\<rceil>)"
    by linarith
  then have "t0 + minMs cl \<le> max c due + real_of_int (max 0 \<lceil>minMs cl - (max c due - t0)\<rceil>)"
    by linarith
  then show ?thesis using assms(1-3) e
    by (simp add: live_def completeOnce_def Let_def host_defs)
qed

lemma complete_finishes:
  assumes "live cl t0 tr1 s" "onlyTimer (CompleteTask cl (clampedClosestIndex cl)) s"
  shows "\<exists>n s' c'. hostRun n dt date (s, c) = (s', c') \<and> t0 + minMs cl \<le> c' \<and>
           trace s' = tr1 @ endEvents cl c' \<and> \<not> isSpinningRef s' \<and> quiet s'"
proof -
  obtain h due where t: "timers s = [(h, due, CompleteTask cl (clampedClosestIndex cl))]"
    "frames s = []"
    using assms(2) by (rule onlyTimerE)
  show ?thesis
  proof (cases "t0 + minMs cl \<le> max c due")
    case True
    then obtain s' where "hostStep dt date (s, c) = (s', max c due)"
      "trace s' = tr1 @ endEvents cl (max c due)" "\<not> isSpinningRef s'" "quiet s'"
      using host_complete_late [OF assms(1) t] by blast
    moreover from this have "hostRun 1 dt date (s, c) = (s', max c due)"
      by (simp add: hostRun_def)
    ultimately show ?thesis using True by blast
  next
    case False
    then have "max c due < t0 + minMs cl" by linarith
    then obtain s' h' due' where s': "hostStep dt date (s, c) = (s', max c due)"
      "live cl t0 tr1 s'" "timers s' = [(h', due', CompleteTask cl (clampedClosestIndex cl))]"
      "frames s' = []" "t0 + minMs cl \<le> due'"
      using host_complete_early [OF assms(1) t] by blast
    have late: "t0 + minMs cl \<le> max (max c due) due'" using s'(5) by linarith
    obtain s'' where s'': "hostStep dt date (s', max c due) = (s'', max (max c due) due')"
      "trace s'' = tr1 @ endEvents cl (max (max c due) due')" "\<not> isSpinningRef s''" "quiet s''"
      using host_complete_late [OF s'(2,3,4) late] by blast
    have "hostRun (Suc (Suc 0)) dt date (s, c) = (s'', max (max c due) due')"
      using s'(1) s''(1) by (simp add: hostRun_Suc)
    then show ?thesis using s''(2,3,4) late by blast
  qed
qed

lemma host_spin_completes:
  assumes "live cl t0 tr1 s" "onlyTimer (StartTask cl) s"
    "0 \<le> duration (cl_props cl)" "0 \<le> twistDuration (cl_props cl)"
    "0 < delta" "\<forall>c. date c + delta \<le> date (c + dt)"
  shows "\<exists>n s' c'. hostRun n dt date (s, c) = (s', c') \<and> t0 + minMs cl \<le> c' \<and>
           trace s' = tr1 @ endEvents cl c' \<and> \<not> isSpinningRef s' \<and> quiet s'"
proof -
  obtain s1 c1 st where 1: "hostStep dt date (s, c) = (s1, c1)" "live cl t0 tr1 s1"
    "onlyFrame (AnimateTask cl st) s1"
    using host_start [OF assms(1,2)] by blast
  obtain m1 :: nat where "st + duration (cl_props cl) - date c1 \<le> real m1 * delta"
    using steps_bound [OF assms(5)] by blast
  then obtain n2 s2 c2 st2 where 2: "hostRun n2 dt date (s1, c1) = (s2, c2)"
    "live cl t0 tr1 s2" "onlyFrame (TwistBackTask cl st2 (clampedClosestIndex cl)) s2"
    using animate_finishes [OF assms(5,6,3) 1(2,3)] by blast
  obtain m2 :: nat where "st2 + twistDuration (cl_props cl) - date c2 \<le> real m2 * delta"
    using steps_bound [OF assms(5)] by blast
  then obtain n3 s3 c3 where 3: "hostRun n3 dt date (s2, c2) = (s3, c3)"
    "live cl t0 tr1 s3" "onlyTimer (CompleteTask cl (clampedClosestIndex cl)) s3"
    using twist_finishes [OF assms(5,6,4) 2(2,3)] by blast
  obtain n4 s4 c4 where 4: "hostRun n4 dt date (s3, c3) = (s4, c4)" "t0 + minMs cl \<le> c4"
    "trace s4 = tr1 @ endEvents cl c4" "\<not> isSpinningRef s4" "quiet s4"
    using complete_finishes [OF 3(2,3)] by blast
  have "hostRun 1 dt date (s, c) = (s1, c1)"
    using 1(1) by (simp add: hostRun_def)
  then have "hostRun (n4 + (n3 + (n2 + 1))) dt date (s, c) = (s4, c4)"
    using 2(1) 3(1) 4(1) by (simp only: hostRun_add)
  then show ?thesis using 4(2-5) by blast
qed

lemma length_generateItems [simp]: "length (generateItems p rnd off n) = nat n"
  by (simp add: generateItems_def)

lemma pickRandom_pool:
  assumes "itemsPool p \<noteq> []" "0 \<le> r" "r < 1"
  shows "\<exists>x \<in> set (itemsPool p). pickRandom p r = Some x"
proof -
  let ?n = "length (itemsPool p)"
  have n: "0 < real ?n" using assms(1) by simp
  have "0 \<le> r * real ?n" using assms(2) by simp
  then have lo: "0 \<le> \<lfloor>r * real ?n\<rfloor>" by simp
  have "r * real ?n < 1 * real ?n" using assms(3) n by (intro mult_strict_right_mono)
  then have "r * real ?n < real_of_int (int ?n)" by simp
  then have hi: "\<lfloor>r * real ?n\<rfloor> < int ?n" by (simp only: floor_less_iff)
  then have "nat \<lfloor>r * real ?n\<rfloor> < ?n" using lo by linarith
  then have mem: "itemsPool p ! nat \<lfloor>r * real ?n\<rfloor> \<in> set (itemsPool p)" by simp
  have "pickRandom p r = Some (itemsPool p ! nat \<lfloor>r * real ?n\<rfloor>)"
    using assms(1) lo hi by (simp add: pickRandom_def Let_def)
  then show ?thesis using mem by blast
qed

lemma generateItems_pool:
  assumes "itemsPool p \<noteq> []" "\<forall>n. 0 \<le> rnd n \<and> rnd n < 1"
  shows "set (generateItems p rnd off n) \<subseteq> Some ` set (itemsPool p)"
proof
  fix y assume "y \<in> set (generateItems p rnd off n)"
  then obtain i where "y = pickRandom p (rnd (off + i))"
    by (auto simp: generateItems_def)
  then show "y \<in> Some ` set (itemsPool p)"
    using pickRandom_pool [OF assms(1), of "rnd (off + i)"] assms(2) by auto
qed

lemma reelItems_unforced:
  "forcedResult p = None \<Longrightarrow> reelItems p rnd = generateItems p rnd 0 (reelItemCount p)"
  by (simp add: reelItems_def isForced_def)

lemma reelItems_forced_in_range:
  assumes "forcedResult p = Some f" "0 \<le> forcedTargetIndex p"
    "forcedTargetIndex p + 1 \<le> reelItemCount p"
  shows "length (reelItems p rnd) = nat (reelItemCount p)"
    and "reelItems p rnd ! nat (forcedTargetIndex p) = Some f"
proof -
  let ?base = "generateItems p rnd 0 (forcedBaseCount p)"
  let ?tail = "generateItems p rnd (length ?base) (forcedTailCount p)"
  have lb: "length ?base = nat (forcedTargetIndex p) + 1"
    using assms(2) by (simp add: forcedBaseCount_def nat_add_distrib)
  then have set: "array_set ?base (forcedTargetIndex p) (Some f)
      = ?base[nat (forcedTargetIndex p) := Some f]"
    using assms(2) by (simp add: array_set_def)
  have r: "reelItems p rnd = ?base[nat (forcedTargetIndex p) := Some f] @ ?tail"
    using assms(1) set by (simp add: reelItems_def isForced_def Let_def)
  show "length (reelItems p rnd) = nat (reelItemCount p)"
    using assms(2,3) by (simp add: r forcedBaseCount_def forcedTailCount_def)
  show "reelItems p rnd ! nat (forcedTargetIndex p) = Some f"
    using lb by (simp add: r nth_append)
qed

lemma spinClosure_simps [simp]:
  "cl_props (spinClosure p rnd tok) = p"
  "spinToken (spinClosure p rnd tok) = tok"
  "updatedItems (spinClosure p rnd tok) = reelItems p rnd"
  by (simp_all add: spinClosure_def Let_def)

lemma clampedClosestIndex_forced:
  assumes "forcedResult p = Some f" "0 \<le> forcedTargetIndex p"
    "forcedTargetIndex p + 1 \<le> reelItemCount p"
  shows "clampedClosestIndex (spinClosure p rnd tok) = Some (forcedTargetIndex p)"
  using assms reelItems_forced_in_range(1) [OF assms, of rnd]
  by (simp add: clampedClosestIndex_def isForced_def Let_def)

lemma endEvents_forced:
  assumes "forcedResult p = Some f" "0 \<le> forcedTargetIndex p"
    "forcedTargetIndex p + 1 \<le> reelItemCount p"
  shows "endEvents (spinClosure p rnd tok) t =
           (if onSpinEnd p then [(t, SpinEnd (Some f))] else [])"
  using assms reelItems_forced_in_range [OF assms, of rnd]
    clampedClosestIndex_forced [OF assms, of rnd tok]
  by (simp add: endEvents_def)

lemma endEvents_unforced:
  assumes "forcedResult p = None" "itemsPool p \<noteq> []" "\<forall>n. 0 \<le> rnd n \<and> rnd n < 1"
  shows "endEvents (spinClosure p rnd tok) t = [] \<or>
         (\<exists>x \<in> set (itemsPool p). endEvents (spinClosure p rnd tok) t = [(t, SpinEnd (Some x))])"
proof (cases "endEvents (spinClosure p rnd tok) t = []")
  case True
  then show ?thesis by simp
next
  case False
  then obtain i where i: "0 \<le> i" "i < int (length (reelItems p rnd))"
    "endEvents (spinClosure p rnd tok) t = [(t, SpinEnd (reelItems p rnd ! nat i))]"
    by (auto simp: endEvents_def split: option.splits if_splits)
  then have "reelItems p rnd ! nat i \<in> set (reelItems p rnd)" by simp
  then have "reelItems p rnd ! nat i \<in> Some ` set (itemsPool p)"
    using generateItems_pool [OF assms(2,3)] reelItems_unforced [OF assms(1)] by auto
  then show ?thesis using i(3) by auto
qed

lemma length_reelItems_pos:
  assumes "1 \<le> reelItemCount p"
  shows "0 < length (reelItems p rnd)"
proof (cases "isForced p")
  case False
  then show ?thesis using assms by (simp add: reelItems_def)
next
  case True
  show ?thesis
  proof (cases "0 \<le> forcedTargetIndex p")
    case True
    then show ?thesis using \<open>isForced p\<close>
      by (simp add: reelItems_def Let_def array_set_def forcedBaseCount_def)
  next
    case False
    then show ?thesis using \<open>isForced p\<close> assms
      by (simp add: reelItems_def Let_def array_set_def forcedBaseCount_def forcedTailCount_def)
  qed
qed

lemma clampIndex_Fin_range:
  "0 \<le> hi \<Longrightarrow> \<exists>i. clampIndex (Fin x) hi = Some i \<and> 0 \<le> i \<and> i \<le> hi"
  by simp

lemma clampedClosestIndex_in_range:
  assumes "1 \<le> reelItemCount p" "isForced p \<or> itemTotal p \<noteq> 0"
  shows "\<exists>i. clampedClosestIndex (spinClosure p rnd tok) = Some i \<and> 0 \<le> i \<and>
           i < int (length (reelItems p rnd))"
proof -
  let ?cl = "spinClosure p rnd tok"
  have len: "0 \<le> int (length (reelItems p rnd)) - 1"
    using length_reelItems_pos [OF assms(1), of rnd] by linarith
  have "\<exists>i. clampedClosestIndex ?cl = Some i \<and> 0 \<le> i \<and> i \<le> int (length (reelItems p rnd)) - 1"
  proof (cases "isForced p")
    case True
    then show ?thesis using len by (simp add: clampedClosestIndex_def Let_def)
  next
    case False
    then have "itemTotal p \<noteq> 0" using assms(2) by simp
    then obtain x where "closestIndex ?cl = Fin x"
      by (auto simp: closestIndex_def js_div_def)
    then show ?thesis using False len by (simp add: clampedClosestIndex_def Let_def)
  qed
  then show ?thesis by auto
qed

lemma endEvents_fires:
  assumes "1 \<le> reelItemCount p" "isForced p \<or> itemTotal p \<noteq> 0" "onSpinEnd p"
  shows "\<exists>x. \<forall>t. endEvents (spinClosure p rnd tok) t = [(t, SpinEnd x)]"
  using clampedClosestIndex_in_range [OF assms(1,2), of rnd tok] assms(3)
  by (auto simp: endEvents_def)

lemma randomOffset_bound:
  assumes "0 \<le> r" "r < 1"
  shows "\<bar>randomOffset p r\<bar> \<le> 49 / 100 * \<bar>itemTotal p\<bar>"
proof -
  have "randomOffset p r = (r - 1 / 2) * (49 / 50) * itemTotal p"
    by (simp add: randomOffset_def STOP_OFFSET_RATIO_def)
  then have "\<bar>randomOffset p r\<bar> = \<bar>(r - 1 / 2) * (49 / 50)\<bar> * \<bar>itemTotal p\<bar>"
    by (simp only: abs_mult)
  also have "\<dots> \<le> 49 / 100 * \<bar>itemTotal p\<bar>"
    using jitter_ratio_bound [OF assms] by (intro mult_right_mono) simp_all
  finally show ?thesis .
qed

lemma run_Nil [simp]: "run [] s = s"
  by (simp add: run_def)

lemma run_Cons [simp]: "run (e # es) s = run es (step e s)"
  by (simp add: run_def)

lemma run_append [simp]: "run (es1 @ es2) s = run es2 (run es1 s)"
  by (simp add: run_def)

lemma hostStep_quiet: "quiet s \<Longrightarrow> hostStep dt date (s, c) = (s, c)"
  by (simp add: quiet_def)

lemma hostRun_quiet: "quiet s \<Longrightarrow> hostRun n dt date (s, c) = (s, c)"
  by (induction n) (simp_all add: hostRun_Suc hostStep_quiet del: hostStep.simps)

lemma hostRun_settled:
  assumes "hostRun n dt date x = (s, c)" "quiet s" "n \<le> m"
  shows "hostRun m dt date x = (s, c)"
proof -
  have "hostRun ((m - n) + n) dt date x = hostRun (m - n) dt date (hostRun n dt date x)"
    by (rule hostRun_add)
  then show ?thesis using assms by (simp add: hostRun_quiet)
qed

lemma spin_accepted_live:
  assumes "\<not> isSpinningRef s" "itemsPool p \<noteq> []" "tracked s"
  shows "live (spinClosure p rnd (spinTokenRef s + 1)) (wallNow ck)
           (trace s @ startEvents p (wallNow ck)) (spin p rnd ck s)"
    and "onlyTimer (StartTask (spinClosure p rnd (spinTokenRef s + 1))) (spin p rnd ck s)"
proof -
  have "quiet (cancelPending (beginSpin p ck s))"
    using assms(3) by (intro quiet_cancelPending tracked_beginSpin)
  then have q': "timers (cancelPending (beginSpin p ck s)) = []"
    "frames (cancelPending (beginSpin p ck s)) = []"
    by (simp_all add: quiet_def)
  have c: "completedTokenRef (beginSpin p ck s) = None"
    by (simp add: beginSpin_def Let_def)
  show "live (spinClosure p rnd (spinTokenRef s + 1)) (wallNow ck)
           (trace s @ startEvents p (wallNow ck)) (spin p rnd ck s)"
    using assms(1,2) c
    by (simp add: spin_def Let_def host_defs live_def split: prod.splits)
  show "onlyTimer (StartTask (spinClosure p rnd (spinTokenRef s + 1))) (spin p rnd ck s)"
    using assms(1,2) q'
    by (simp add: spin_def Let_def host_defs onlyTimer_def split: prod.splits)
qed

lemma endEvents_cases:
  "endEvents cl t = [] \<or> (\<exists>x. endEvents cl t = [(t, SpinEnd x)])"
  by (simp add: endEvents_def split: option.splits)

lemma minMs_spinClosure [simp]: "minMs (spinClosure p rnd tok) = duration p + twistDuration p"
  by (simp add: minMs_def)

text \<open>The state of a spin accepted after any history, along any later events.\<close>

lemma spin_session_run:
  assumes "\<not> isSpinningRef (run es0 initial)" "itemsPool p \<noteq> []"
    "spinTokenRef (run es (spin p rnd ck (run es0 initial))) = spinTokenRef (run es0 initial) + 1"
  shows "session (spinClosure p rnd (spinTokenRef (run es0 initial) + 1)) (wallNow ck)
           (trace (run es0 initial) @ startEvents p (wallNow ck))
           (run es (spin p rnd ck (run es0 initial)))"
proof -
  let ?s0 = "run es0 initial"
  let ?cl = "spinClosure p rnd (spinTokenRef ?s0 + 1)"
  have tr: "tracked ?s0" by (intro tracked_run tracked_initial)
  have "sessionInv ?cl (wallNow ck) (trace ?s0 @ startEvents p (wallNow ck)) (spin p rnd ck ?s0)"
    using spin_accepted [OF assms(1,2) tr, of rnd ck] by (simp add: sessionInv_def)
  then have "sessionInv ?cl (wallNow ck) (trace ?s0 @ startEvents p (wallNow ck))
      (run es (spin p rnd ck ?s0))"
    by (rule sessionInv_run)
  then show ?thesis using assms(3) by (simp add: sessionInv_def)
qed

lemma items_spin:
  "\<not> isSpinningRef s \<Longrightarrow> itemsPool p \<noteq> [] \<Longrightarrow> items (spin p rnd ck s) = reelItems p rnd"
  by (simp add: spin_def Let_def host_defs split: prod.splits)

lemma quiet_step_silent:
  assumes "quiet s" "\<not> isCallSpin (snd e)"
  shows "quiet (step e s) \<and> trace (step e s) = trace s"
proof (cases e)
  case (Pair ck ev)
  show ?thesis
  proof (cases ev)
    case Unmount
    then show ?thesis using Pair assms(1) by (simp add: quiet_unmount quiet_tracked)
  qed (use Pair assms in \<open>simp_all add: quiet_def\<close>)
qed

lemma quiet_run_silent:
  "quiet s \<Longrightarrow> \<forall>e \<in> set es. \<not> isCallSpin (snd e) \<Longrightarrow>
   quiet (run es s) \<and> trace (run es s) = trace s"
proof (induction es arbitrary: s)
  case Nil
  then show ?case by simp
next
  case (Cons e es)
  then have "quiet (step e s)" "trace (step e s) = trace s"
    using quiet_step_silent [of s e] by simp_all
  then show ?case using Cons.IH [of "step e s"] Cons.prems(2) by simp
qed

lemma demoRandom_unit: "0 \<le> demoRandom n \<and> demoRandom n < 1"
proof -
  have "n mod 7 < 7" by simp
  then have "real (n mod 7 + 1) < 8" by linarith
  then show ?thesis by (simp add: demoRandom_def)
qed

section \<open>The claims\<close>

subsection \<open>Motion profile\<close>

text \<open>
  Claim C9. Both motion phases use one easing law. With \<open>ease p = 1 - (1 - p)^3\<close> and
  \<open>position t = start + (target - start) * ease (min (t / duration) 1)\<close> as the
  specification words them, the value a frame of \<^verbatim>\<open>animate\<close> writes \<open>t\<close> milliseconds
  into the spin phase is \<open>position t\<close> from \<^verbatim>\<open>startTranslate\<close> to the jittered target
  over \<^verbatim>\<open>duration\<close>, and the value a frame of \<^verbatim>\<open>animateTwistBack\<close> writes \<open>u\<close>
  milliseconds into the twist-back is \<open>position u\<close> from the jittered target to the
  perfect position of the resolved index over \<^verbatim>\<open>twistDuration\<close>. The durations are
  taken non-zero, so that the progress is a finite number.
\<close>

theorem motion_profile_cubic_ease_out:
  assumes "duration (cl_props cl) \<noteq> 0" and "twistDuration (cl_props cl) \<noteq> 0"
  shows "currentTranslateValue cl t =
           Some (spec_position startTranslate (targetTranslate cl) t (duration (cl_props cl)))
       \<and> twistBackCurrentPosition cl (Some i) u =
           Some (spec_position (targetTranslate cl) (perfectPositionForClosestItem cl i) u
                   (twistDuration (cl_props cl)))"
  using assms
  by (simp add: currentTranslateValue_def twistBackCurrentPosition_def spec_position_def
      spec_ease_def js_div_def offsetToPerfect_def Let_def)

theorem motion_profile_cubic_ease_out_witness:
  "duration (cl_props (spinClosure demoProps demoRandom 1)) \<noteq> 0
   \<and> twistDuration (cl_props (spinClosure demoProps demoRandom 1)) \<noteq> 0
   \<and> currentTranslateValue (spinClosure demoProps demoRandom 1) 1250 =
       Some (spec_position startTranslate (targetTranslate (spinClosure demoProps demoRandom 1))
               1250 2500)
   \<and> twistBackCurrentPosition (spinClosure demoProps demoRandom 1) (Some 30) 200 =
       Some (spec_position (targetTranslate (spinClosure demoProps demoRandom 1))
               (perfectPositionForClosestItem (spinClosure demoProps demoRandom 1) 30) 200 400)"
proof -
  have d: "duration (cl_props (spinClosure demoProps demoRandom 1)) = 2500"
    "twistDuration (cl_props (spinClosure demoProps demoRandom 1)) = 400"
    by (simp_all add: demoProps_def DEFAULT_REEL_ITEMS_def DEFAULT_FORCED_TARGET_INDEX_def)
  have h1: "duration (cl_props (spinClosure demoProps demoRandom 1)) \<noteq> 0"
    and h2: "twistDuration (cl_props (spinClosure demoProps demoRandom 1)) \<noteq> 0"
    by (simp_all add: demoProps_def DEFAULT_REEL_ITEMS_def DEFAULT_FORCED_TARGET_INDEX_def)
  show ?thesis
    using motion_profile_cubic_ease_out [OF h1 h2, of 1250 30 200] h1 h2
    by (simp add: demoProps_def DEFAULT_REEL_ITEMS_def DEFAULT_FORCED_TARGET_INDEX_def)
qed

subsection \<open>The jitter and the landing index\<close>

text \<open>
  Claim C8. The jitter added to the stopping position is at most \<^verbatim>\<open>STOP_OFFSET_RATIO\<close>
  (0.49) of one item's footprint \<^verbatim>\<open>itemTotal\<close>, and rounding the float index at the
  jittered stop position gives the chosen target index: \<^verbatim>\<open>closestIndex\<close>, computed
  from \<^verbatim>\<open>targetTranslate\<close> as \<^verbatim>\<open>animate\<close> does, is \<^verbatim>\<open>targetIndex\<close>. The footprint
  is non-zero and \<^verbatim>\<open>Math.random()\<close> returned a value in \<open>[0, 1)\<close>.
\<close>

theorem jitter_never_shifts_landing_index:
  assumes "itemTotal p \<noteq> 0" and "0 \<le> rnd (drawsUsed p)" and "rnd (drawsUsed p) < 1"
  shows "\<bar>randomOffset p (rnd (drawsUsed p))\<bar> \<le> STOP_OFFSET_RATIO * \<bar>itemTotal p\<bar>
       \<and> targetTranslate (spinClosure p rnd tok) =
           perfectTargetTranslate p (reelItems p rnd) + randomOffset p (rnd (drawsUsed p))
       \<and> closestIndex (spinClosure p rnd tok) =
           Fin (real_of_int (targetIndexOf p (reelItems p rnd)))"
proof -
  let ?r = "rnd (drawsUsed p)"
  have "\<bar>randomOffset p ?r\<bar> \<le> 49 / 100 * \<bar>itemTotal p\<bar>"
    using assms(2,3) by (rule randomOffset_bound)
  then show ?thesis
    using closestIndex_spinClosure [of p rnd tok] assms
    by (simp add: STOP_OFFSET_RATIO_def spinClosure_def Let_def targetTranslateOf_def)
qed

theorem jitter_never_shifts_landing_index_witness:
  "itemTotal demoProps \<noteq> 0 \<and> 0 \<le> demoRandom (drawsUsed demoProps)
   \<and> demoRandom (drawsUsed demoProps) < 1
   \<and> \<bar>randomOffset demoProps (demoRandom (drawsUsed demoProps))\<bar>
        \<le> STOP_OFFSET_RATIO * \<bar>itemTotal demoProps\<bar>
   \<and> closestIndex (spinClosure demoProps demoRandom 1) = Fin 30"
proof -
  have h1: "itemTotal demoProps \<noteq> 0"
    by (simp add: itemTotal_def demoProps_def)
  have h2: "0 \<le> demoRandom (drawsUsed demoProps)"
    and h3: "demoRandom (drawsUsed demoProps) < 1"
    by (simp_all add: demoRandom_def)
  have "targetIndexOf demoProps (reelItems demoProps demoRandom) = 30"
    by (simp add: targetIndexOf_def isForced_def demoProps_def DEFAULT_FORCED_TARGET_INDEX_def)
  then show ?thesis
    using jitter_never_shifts_landing_index [of demoProps demoRandom 1] h1 h2 h3 by simp
qed

text \<open>
  Claim C10. For an unforced spin the resolved index does not depend on the jitter: it is
  \<^verbatim>\<open>reelItemCount - 5\<close> clamped into \<open>[0, reelItemCount - 1]\<close>, the jitter is strictly
  below half an item footprint, and for a reel of at least one item the result reported
  is the item of the sequence at that index.
\<close>

theorem unforced_landing_index_deterministic:
  assumes "forcedResult p = None" and "itemTotal p \<noteq> 0"
    and "0 \<le> rnd (drawsUsed p)" and "rnd (drawsUsed p) < 1"
  shows "clampedClosestIndex (spinClosure p rnd tok) =
           Some (max 0 (min (reelItemCount p - 5) (reelItemCount p - 1)))
       \<and> \<bar>randomOffset p (rnd (drawsUsed p))\<bar> < \<bar>itemTotal p\<bar> / 2
       \<and> (1 \<le> reelItemCount p \<longrightarrow>
            endEvents (spinClosure p rnd tok) t =
              (if onSpinEnd p
               then [(t, SpinEnd (reelItems p rnd ! nat (max 0 (reelItemCount p - 5))))]
               else []))"
proof -
  let ?r = "rnd (drawsUsed p)"
  let ?cl = "spinClosure p rnd tok"
  have len: "length (reelItems p rnd) = nat (reelItemCount p)"
    using assms(1) by (simp add: reelItems_unforced)
  have ci: "closestIndex ?cl = Fin (real_of_int (int (length (reelItems p rnd)) - 5))"
    using closestIndex_spinClosure [of p rnd tok] assms
    by (simp add: targetIndexOf_def isForced_def)
  have idx: "clampedClosestIndex ?cl = Some (max 0 (min (reelItemCount p - 5) (reelItemCount p - 1)))"
    using assms(1) by (simp add: clampedClosestIndex_def isForced_def Let_def ci len del: of_int_diff)
  have "\<bar>randomOffset p ?r\<bar> \<le> 49 / 100 * \<bar>itemTotal p\<bar>"
    using assms(3,4) by (rule randomOffset_bound)
  moreover have "0 < \<bar>itemTotal p\<bar>" using assms(2) by simp
  ultimately have jit: "\<bar>randomOffset p ?r\<bar> < \<bar>itemTotal p\<bar> / 2" by linarith
  have "endEvents ?cl t =
      (if onSpinEnd p then [(t, SpinEnd (reelItems p rnd ! nat (max 0 (reelItemCount p - 5))))]
       else [])" if "1 \<le> reelItemCount p"
  proof -
    have "max 0 (min (reelItemCount p - 5) (reelItemCount p - 1)) = max 0 (reelItemCount p - 5)"
      by linarith
    then show ?thesis using that idx len by (simp add: endEvents_def)
  qed
  then show ?thesis using idx jit by blast
qed

theorem unforced_landing_index_deterministic_witness:
  "forcedResult (demoProps\<lparr>forcedResult := None\<rparr>) = None
   \<and> itemTotal (demoProps\<lparr>forcedResult := None\<rparr>) \<noteq> 0
   \<and> 0 \<le> demoRandom (drawsUsed (demoProps\<lparr>forcedResult := None\<rparr>))
   \<and> demoRandom (drawsUsed (demoProps\<lparr>forcedResult := None\<rparr>)) < 1
   \<and> 1 \<le> reelItemCount (demoProps\<lparr>forcedResult := None\<rparr>)
   \<and> clampedClosestIndex (spinClosure (demoProps\<lparr>forcedResult := None\<rparr>) demoRandom 1) = Some 30
   \<and> endEvents (spinClosure (demoProps\<lparr>forcedResult := None\<rparr>) demoRandom 1) 2966
       = [(2966, SpinEnd (reelItems (demoProps\<lparr>forcedResult := None\<rparr>) demoRandom ! 30))]"
proof -
  let ?p = "demoProps\<lparr>forcedResult := None\<rparr>"
  have h1: "forcedResult ?p = None" by simp
  have h2: "itemTotal ?p \<noteq> 0" by (simp add: itemTotal_def demoProps_def)
  have h3: "0 \<le> demoRandom (drawsUsed ?p)" and h4: "demoRandom (drawsUsed ?p) < 1"
    by (simp_all add: demoRandom_def)
  have h5: "1 \<le> reelItemCount ?p" "onSpinEnd ?p" "reelItemCount ?p = 35"
    by (simp_all add: demoProps_def DEFAULT_REEL_ITEMS_def DEFAULT_FORCED_TARGET_INDEX_def)
  show ?thesis
    using unforced_landing_index_deterministic [of ?p demoRandom 1 2966] h1 h2 h3 h4 h5
    by simp
qed

subsection \<open>Completion\<close>

text \<open>
  Claim C1. Let \<^verbatim>\<open>spin\<close> be called with a non-empty pool after any history that left
  no spin live, the caller having supplied \<^verbatim>\<open>onSpinStart\<close>. Whatever the host does
  next (timers and frames fired at any clock readings, further calls of \<^verbatim>\<open>spin\<close>,
  unmounting), as long as no later call of \<^verbatim>\<open>spin\<close> has minted a new token the log is
  the earlier log followed by \<^verbatim>\<open>onSpinStart\<close> alone, or by \<^verbatim>\<open>onSpinStart\<close> and one
  \<^verbatim>\<open>onSpinEnd\<close> that is at least \<^verbatim>\<open>duration + twistDuration\<close> milliseconds later on
  the wall clock. And for a configuration with \<^verbatim>\<open>onSpinEnd\<close> supplied, durations that
  are not negative, a reel of at least one item and (for an unforced spin) a non-zero
  item footprint, a host that fires every pending callback, its \<^verbatim>\<open>Date.now()\<close>
  advancing by at least \<open>delta > 0\<close> from frame to frame, reaches a point from which on
  the log holds exactly that one \<^verbatim>\<open>onSpinEnd\<close>: when the motion ends before the
  minimum duration, \<^verbatim>\<open>completeOnce\<close> re-arms a timer and reports later.
\<close>

theorem spin_end_exactly_once_not_early:
  assumes "\<not> isSpinningRef (run es0 initial)" and "itemsPool p \<noteq> []" and "onSpinStart p"
  shows "(\<forall>es. spinTokenRef (run es (spin p rnd ck (run es0 initial)))
                 = spinTokenRef (run es0 initial) + 1 \<longrightarrow>
            trace (run es (spin p rnd ck (run es0 initial)))
              = trace (run es0 initial) @ [(wallNow ck, SpinStart)]
            \<or> (\<exists>t x. wallNow ck + (duration p + twistDuration p) \<le> t \<and>
                  trace (run es (spin p rnd ck (run es0 initial)))
                    = trace (run es0 initial) @ [(wallNow ck, SpinStart), (t, SpinEnd x)]))
       \<and> (onSpinEnd p \<and> 0 \<le> duration p \<and> 0 \<le> twistDuration p \<and> 1 \<le> reelItemCount p \<and>
           (isForced p \<or> itemTotal p \<noteq> 0) \<longrightarrow>
            (\<forall>dt date delta c. 0 < delta \<and> (\<forall>c'. date c' + delta \<le> date (c' + dt)) \<longrightarrow>
               (\<exists>n t x. wallNow ck + (duration p + twistDuration p) \<le> t \<and>
                  (\<forall>m\<ge>n. trace (fst (hostRun m dt date (spin p rnd ck (run es0 initial), c)))
                     = trace (run es0 initial) @ [(wallNow ck, SpinStart), (t, SpinEnd x)]))))"
proof (intro conjI allI impI)
  fix es
  assume tok: "spinTokenRef (run es (spin p rnd ck (run es0 initial)))
      = spinTokenRef (run es0 initial) + 1"
  let ?cl = "spinClosure p rnd (spinTokenRef (run es0 initial) + 1)"
  let ?R = "run es (spin p rnd ck (run es0 initial))"
  let ?tr1 = "trace (run es0 initial) @ [(wallNow ck, SpinStart)]"
  have "session ?cl (wallNow ck) ?tr1 ?R"
    using spin_session_run [OF assms(1,2) tok] assms(3) by (simp add: startEvents_def)
  then consider "trace ?R = ?tr1"
    | t where "wallNow ck + minMs ?cl \<le> t" "trace ?R = ?tr1 @ endEvents ?cl t"
    by (auto simp: session_def)
  then show "trace ?R = ?tr1 \<or>
      (\<exists>t x. wallNow ck + (duration p + twistDuration p) \<le> t \<and>
         trace ?R = trace (run es0 initial) @ [(wallNow ck, SpinStart), (t, SpinEnd x)])"
  proof cases
    case 1
    then show ?thesis by simp
  next
    case (2 t)
    then show ?thesis using endEvents_cases [of ?cl t] by auto
  qed
next
  fix dt delta c :: real and date :: "real \<Rightarrow> real"
  assume cfg: "onSpinEnd p \<and> 0 \<le> duration p \<and> 0 \<le> twistDuration p \<and> 1 \<le> reelItemCount p \<and>
      (isForced p \<or> itemTotal p \<noteq> 0)"
    and host: "0 < delta \<and> (\<forall>c'. date c' + delta \<le> date (c' + dt))"
  let ?s0 = "run es0 initial"
  let ?cl = "spinClosure p rnd (spinTokenRef ?s0 + 1)"
  let ?tr1 = "trace ?s0 @ [(wallNow ck, SpinStart)]"
  have tr: "tracked ?s0" by (intro tracked_run tracked_initial)
  have l: "live ?cl (wallNow ck) ?tr1 (spin p rnd ck ?s0)"
    and o: "onlyTimer (StartTask ?cl) (spin p rnd ck ?s0)"
    using spin_accepted_live [OF assms(1,2) tr, of rnd ck] assms(3)
    by (simp_all add: startEvents_def)
  have d: "0 \<le> duration (cl_props ?cl)" "0 \<le> twistDuration (cl_props ?cl)"
    using cfg by simp_all
  obtain n s' c' where r: "hostRun n dt date (spin p rnd ck ?s0, c) = (s', c')"
    "wallNow ck + minMs ?cl \<le> c'" "trace s' = ?tr1 @ endEvents ?cl c'" "quiet s'"
    using host_spin_completes [OF l o d, of delta date dt c] host by blast
  obtain x where x: "endEvents ?cl c' = [(c', SpinEnd x)]"
    using endEvents_fires [of p rnd "spinTokenRef ?s0 + 1"] cfg by blast
  have "\<forall>m\<ge>n. trace (fst (hostRun m dt date (spin p rnd ck ?s0, c)))
      = trace ?s0 @ [(wallNow ck, SpinStart), (c', SpinEnd x)]"
    using hostRun_settled [OF r(1,4)] r(3) x by simp
  then show "\<exists>n t x. wallNow ck + (duration p + twistDuration p) \<le> t \<and>
      (\<forall>m\<ge>n. trace (fst (hostRun m dt date (spin p rnd ck ?s0, c)))
         = trace ?s0 @ [(wallNow ck, SpinStart), (t, SpinEnd x)])"
    using r(2) by auto
qed

theorem spin_end_exactly_once_not_early_witness:
  "\<not> isSpinningRef (run [] (initial :: demo_item state)) \<and> itemsPool demoProps \<noteq> []
   \<and> onSpinStart demoProps
   \<and> spinTokenRef (run demoFires (spin demoProps demoRandom (demoClocks 0) (run [] initial)))
       = spinTokenRef (run [] (initial :: demo_item state)) + 1
   \<and> trace (run demoFires (spin demoProps demoRandom (demoClocks 0) (run [] initial)))
       = [(0, SpinStart), (2966, SpinEnd (Some ItemB))]
   \<and> (\<exists>n t x. 2900 \<le> t \<and>
         (\<forall>m\<ge>n. trace (fst (hostRun m 50 fastDate
                      (spin demoProps demoRandom (demoClocks 0) (run [] initial), 0)))
            = [(0, SpinStart), (t, SpinEnd x)]))
   \<and> trace (fst (hostRun 31 50 fastDate
                (spin demoProps demoRandom (demoClocks 0) (run [] initial), 0)))
       = [(0, SpinStart)]
   \<and> trace (fst (hostRun 32 50 fastDate
                (spin demoProps demoRandom (demoClocks 0) (run [] initial), 0)))
       = [(0, SpinStart), (2900, SpinEnd (Some ItemB))]"
proof -
  have h1: "\<not> isSpinningRef (run [] (initial :: demo_item state))"
    by (simp add: initial_def)
  have h2: "itemsPool demoProps \<noteq> []" and h3: "onSpinStart demoProps"
    by (simp_all add: demoProps_def DEFAULT_REEL_ITEMS_def DEFAULT_FORCED_TARGET_INDEX_def)
  have cfg: "onSpinEnd demoProps \<and> 0 \<le> duration demoProps \<and> 0 \<le> twistDuration demoProps \<and>
      1 \<le> reelItemCount demoProps \<and> (isForced demoProps \<or> itemTotal demoProps \<noteq> 0)"
    by (simp add: demoProps_def isForced_def DEFAULT_REEL_ITEMS_def)
  have host: "(0::real) < 100 \<and> (\<forall>c'. fastDate c' + 100 \<le> fastDate (c' + 50))"
    by (simp add: fastDate_def)
  have w: "wallNow (demoClocks 0) = 0" "trace (initial :: demo_item state) = []"
    "duration demoProps + twistDuration demoProps = 2900"
    by (simp_all add: demoClocks_def initial_def demoProps_def)
  have tok: "spinTokenRef (run demoFires (spin demoProps demoRandom (demoClocks 0) (run [] initial)))
       = spinTokenRef (run [] (initial :: demo_item state)) + 1"
    by code_simp
  have r1: "trace (run demoFires (spin demoProps demoRandom (demoClocks 0) (run [] initial)))
       = [(0, SpinStart), (2966, SpinEnd (Some ItemB))]"
    by code_simp
  have r2: "trace (fst (hostRun 31 50 fastDate
                (spin demoProps demoRandom (demoClocks 0) (run [] initial), 0)))
       = [(0, SpinStart)]"
    by code_simp
  have r3: "trace (fst (hostRun 32 50 fastDate
                (spin demoProps demoRandom (demoClocks 0) (run [] initial), 0)))
       = [(0, SpinStart), (2900, SpinEnd (Some ItemB))]"
    by code_simp
  have "\<exists>n t x. wallNow (demoClocks 0) + (duration demoProps + twistDuration demoProps) \<le> t \<and>
         (\<forall>m\<ge>n. trace (fst (hostRun m 50 fastDate
                      (spin demoProps demoRandom (demoClocks 0) (run [] initial), 0)))
            = trace (run [] initial) @ [(wallNow (demoClocks 0), SpinStart), (t, SpinEnd x)])"
    using spin_end_exactly_once_not_early [OF h1 h2 h3, of demoRandom "demoClocks 0"] cfg host
    by blast
  then have live: "\<exists>n t x. 2900 \<le> t \<and>
         (\<forall>m\<ge>n. trace (fst (hostRun m 50 fastDate
                      (spin demoProps demoRandom (demoClocks 0) (run [] initial), 0)))
            = [(0, SpinStart), (t, SpinEnd x)])"
    by (simp add: w)
  show ?thesis using h1 h2 h3 tok r1 r2 r3 live by blast
qed

subsection \<open>The result of a spin\<close>

text \<open>
  A forced index within the reel. Let \<^verbatim>\<open>spin\<close> be called with a non-empty pool after
  any history that left no spin live, with a forced result \<open>f\<close> and
  \<open>0 \<le> forcedTargetIndex\<close>, \<open>forcedTargetIndex + 1 \<le> reelItemCount\<close>. Then the sequence
  generated (and stored in the \<^verbatim>\<open>items\<close> state) has \<^verbatim>\<open>reelItemCount\<close> entries and
  holds \<open>f\<close> itself at \<^verbatim>\<open>forcedTargetIndex\<close>, the index \<^verbatim>\<open>animate\<close> resolves to; and
  whatever the host does next, as long as no later call has minted a new token, the log
  is the earlier log and the start entry, followed by at most one \<^verbatim>\<open>onSpinEnd\<close>, whose
  argument is \<open>f\<close>.
\<close>

theorem forced_result_delivered_within_reel:
  assumes "\<not> isSpinningRef (run es0 initial)" and "itemsPool p \<noteq> []"
    and "forcedResult p = Some f" and "0 \<le> forcedTargetIndex p"
    and "forcedTargetIndex p + 1 \<le> reelItemCount p"
  shows "items (spin p rnd ck (run es0 initial)) = reelItems p rnd
       \<and> length (reelItems p rnd) = nat (reelItemCount p)
       \<and> reelItems p rnd ! nat (forcedTargetIndex p) = Some f
       \<and> clampedClosestIndex (spinClosure p rnd tok) = Some (forcedTargetIndex p)
       \<and> (\<forall>es. spinTokenRef (run es (spin p rnd ck (run es0 initial)))
                 = spinTokenRef (run es0 initial) + 1 \<longrightarrow>
            trace (run es (spin p rnd ck (run es0 initial)))
              = trace (run es0 initial) @ startEvents p (wallNow ck)
            \<or> (\<exists>t. wallNow ck + (duration p + twistDuration p) \<le> t \<and>
                  trace (run es (spin p rnd ck (run es0 initial)))
                    = trace (run es0 initial) @ startEvents p (wallNow ck)
                        @ [(t, SpinEnd (Some f))]))"
proof (intro conjI allI impI)
  show "items (spin p rnd ck (run es0 initial)) = reelItems p rnd"
    using assms(1,2) by (rule items_spin)
  show "length (reelItems p rnd) = nat (reelItemCount p)"
    using assms(3-5) by (rule reelItems_forced_in_range)
  show "reelItems p rnd ! nat (forcedTargetIndex p) = Some f"
    using assms(3-5) by (rule reelItems_forced_in_range)
  show "clampedClosestIndex (spinClosure p rnd tok) = Some (forcedTargetIndex p)"
    using assms(3-5) by (rule clampedClosestIndex_forced)
next
  fix es
  assume tok: "spinTokenRef (run es (spin p rnd ck (run es0 initial)))
      = spinTokenRef (run es0 initial) + 1"
  let ?cl = "spinClosure p rnd (spinTokenRef (run es0 initial) + 1)"
  let ?R = "run es (spin p rnd ck (run es0 initial))"
  let ?tr1 = "trace (run es0 initial) @ startEvents p (wallNow ck)"
  have e: "endEvents ?cl t = (if onSpinEnd p then [(t, SpinEnd (Some f))] else [])" for t
    using assms(3-5) by (rule endEvents_forced)
  have "session ?cl (wallNow ck) ?tr1 ?R"
    using spin_session_run [OF assms(1,2) tok] .
  then consider "trace ?R = ?tr1"
    | t where "wallNow ck + minMs ?cl \<le> t" "trace ?R = ?tr1 @ endEvents ?cl t"
    by (auto simp: session_def)
  then show "trace ?R = ?tr1 \<or>
      (\<exists>t. wallNow ck + (duration p + twistDuration p) \<le> t \<and>
         trace ?R = trace (run es0 initial) @ startEvents p (wallNow ck) @ [(t, SpinEnd (Some f))])"
  proof cases
    case 1
    then show ?thesis by simp
  next
    case (2 t)
    then show ?thesis using e [of t] by (cases "onSpinEnd p") auto
  qed
qed

text \<open>
  On the concrete reel with the result forced to \<open>ItemA\<close>: the draw for index 30 is
  \<open>ItemB\<close>, the sequence holds \<open>ItemA\<close> there, and \<open>ItemA\<close> is reported.
\<close>

theorem forced_result_delivered_within_reel_witness:
  "\<not> isSpinningRef (run [] (initial :: demo_item state))
   \<and> itemsPool (demoProps\<lparr>forcedResult := Some ItemA\<rparr>) \<noteq> []
   \<and> forcedResult (demoProps\<lparr>forcedResult := Some ItemA\<rparr>) = Some ItemA
   \<and> 0 \<le> forcedTargetIndex (demoProps\<lparr>forcedResult := Some ItemA\<rparr>)
   \<and> forcedTargetIndex (demoProps\<lparr>forcedResult := Some ItemA\<rparr>) + 1
        \<le> reelItemCount (demoProps\<lparr>forcedResult := Some ItemA\<rparr>)
   \<and> generateItems (demoProps\<lparr>forcedResult := Some ItemA\<rparr>) demoRandom 0 31 ! 30 = Some ItemB
   \<and> length (reelItems (demoProps\<lparr>forcedResult := Some ItemA\<rparr>) demoRandom) = 35
   \<and> reelItems (demoProps\<lparr>forcedResult := Some ItemA\<rparr>) demoRandom ! 30 = Some ItemA
   \<and> spinTokenRef (run demoFires
         (spin (demoProps\<lparr>forcedResult := Some ItemA\<rparr>) demoRandom (demoClocks 0) (run [] initial)))
       = spinTokenRef (run [] (initial :: demo_item state)) + 1
   \<and> trace (run demoFires
         (spin (demoProps\<lparr>forcedResult := Some ItemA\<rparr>) demoRandom (demoClocks 0) (run [] initial)))
       = [(0, SpinStart), (2966, SpinEnd (Some ItemA))]"
proof -
  let ?p = "demoProps\<lparr>forcedResult := Some ItemA\<rparr>"
  have h1: "\<not> isSpinningRef (run [] (initial :: demo_item state))"
    by (simp add: initial_def)
  have h2: "itemsPool ?p \<noteq> []" and h3: "forcedResult ?p = Some ItemA"
    and h4: "0 \<le> forcedTargetIndex ?p"
    and h5: "forcedTargetIndex ?p + 1 \<le> reelItemCount ?p"
    by (simp_all add: demoProps_def DEFAULT_REEL_ITEMS_def DEFAULT_FORCED_TARGET_INDEX_def)
  have v: "nat (reelItemCount ?p) = 35" "nat (forcedTargetIndex ?p) = 30"
    by (simp_all add: demoProps_def DEFAULT_REEL_ITEMS_def DEFAULT_FORCED_TARGET_INDEX_def)
  have g: "generateItems ?p demoRandom 0 31 ! 30 = Some ItemB"
    by code_simp
  have tok: "spinTokenRef (run demoFires (spin ?p demoRandom (demoClocks 0) (run [] initial)))
       = spinTokenRef (run [] (initial :: demo_item state)) + 1"
    by code_simp
  have r: "trace (run demoFires (spin ?p demoRandom (demoClocks 0) (run [] initial)))
       = [(0, SpinStart), (2966, SpinEnd (Some ItemA))]"
    by code_simp
  have "length (reelItems ?p demoRandom) = nat (reelItemCount ?p)
      \<and> reelItems ?p demoRandom ! nat (forcedTargetIndex ?p) = Some ItemA"
    using forced_result_delivered_within_reel [OF h1 h2 h3 h4 h5, of demoRandom "demoClocks 0"]
    by blast
  then have "length (reelItems ?p demoRandom) = 35 \<and> reelItems ?p demoRandom ! 30 = Some ItemA"
    by (simp only: v)
  then show ?thesis using h1 h2 h3 h4 h5 g tok r by blast
qed

text \<open>
  Claim C2. The forced result is not delivered for every forced index with
  \<open>forcedTargetIndex + 1 \<le> reelItemCount\<close>. With \<^verbatim>\<open>forcedTargetIndex = -1\<close> (pool of three
  items, forced result \<open>ItemC\<close>, 35 reel items) the condition holds, yet
  \<^verbatim>\<open>base[forcedTargetIndex] = forced\<close> sets no element: the sequence is the 35 random
  draws, and the only \<^verbatim>\<open>onSpinEnd\<close> of the run reports the random item at index 0,
  \<open>ItemA\<close>, not the forced result.
\<close>

theorem forced_result_lost_at_negative_index:
  "\<not> isSpinningRef (initial :: demo_item state)
   \<and> itemsPool (demoProps\<lparr>forcedResult := Some ItemC, forcedTargetIndex := - 1\<rparr>) \<noteq> []
   \<and> forcedResult (demoProps\<lparr>forcedResult := Some ItemC, forcedTargetIndex := - 1\<rparr>) = Some ItemC
   \<and> forcedTargetIndex (demoProps\<lparr>forcedResult := Some ItemC, forcedTargetIndex := - 1\<rparr>) + 1
        \<le> reelItemCount (demoProps\<lparr>forcedResult := Some ItemC, forcedTargetIndex := - 1\<rparr>)
   \<and> reelItems (demoProps\<lparr>forcedResult := Some ItemC, forcedTargetIndex := - 1\<rparr>) demoRandom
       = generateItems (demoProps\<lparr>forcedResult := Some ItemC, forcedTargetIndex := - 1\<rparr>)
           demoRandom 0 35
   \<and> items (spin (demoProps\<lparr>forcedResult := Some ItemC, forcedTargetIndex := - 1\<rparr>)
                demoRandom (demoClocks 0) initial) ! 0 = Some ItemA
   \<and> trace (run demoFires
              (spin (demoProps\<lparr>forcedResult := Some ItemC, forcedTargetIndex := - 1\<rparr>)
                 demoRandom (demoClocks 0) initial))
       = [(0, SpinStart), (2966, SpinEnd (Some ItemA))]"
  by code_simp

text \<open>
  Claim C7. Let \<^verbatim>\<open>spin\<close> be called with a non-empty pool after any history that left
  no spin live, with no forced result, every \<^verbatim>\<open>Math.random()\<close> lying in \<open>[0, 1)\<close>.
  Then every entry of the generated sequence is an item of the pool; for a reel of at
  least one item with a non-zero footprint the resolved index lies within the sequence;
  and whatever the host does next, as long as no later call has minted a new token, the
  log is the earlier log and the start entry, followed by at most one \<^verbatim>\<open>onSpinEnd\<close>,
  whose argument is an item of the pool (\<^verbatim>\<open>completeOnce\<close> reports only an index
  within the sequence).
\<close>

theorem unforced_result_is_pool_member:
  assumes "\<not> isSpinningRef (run es0 initial)" and "itemsPool p \<noteq> []"
    and "forcedResult p = None" and "\<forall>n. 0 \<le> rnd n \<and> rnd n < 1"
  shows "items (spin p rnd ck (run es0 initial)) = reelItems p rnd
       \<and> set (reelItems p rnd) \<subseteq> Some ` set (itemsPool p)
       \<and> (1 \<le> reelItemCount p \<and> itemTotal p \<noteq> 0 \<longrightarrow>
            (\<exists>i. clampedClosestIndex (spinClosure p rnd tok) = Some i \<and> 0 \<le> i \<and>
                 i < int (length (reelItems p rnd))))
       \<and> (\<forall>es. spinTokenRef (run es (spin p rnd ck (run es0 initial)))
                 = spinTokenRef (run es0 initial) + 1 \<longrightarrow>
            trace (run es (spin p rnd ck (run es0 initial)))
              = trace (run es0 initial) @ startEvents p (wallNow ck)
            \<or> (\<exists>t x. x \<in> set (itemsPool p) \<and>
                  trace (run es (spin p rnd ck (run es0 initial)))
                    = trace (run es0 initial) @ startEvents p (wallNow ck)
                        @ [(t, SpinEnd (Some x))]))"
proof (intro conjI allI impI)
  show "items (spin p rnd ck (run es0 initial)) = reelItems p rnd"
    using assms(1,2) by (rule items_spin)
  show "set (reelItems p rnd) \<subseteq> Some ` set (itemsPool p)"
    using generateItems_pool [OF assms(2,4)] reelItems_unforced [OF assms(3)] by simp
next
  assume "1 \<le> reelItemCount p \<and> itemTotal p \<noteq> 0"
  then show "\<exists>i. clampedClosestIndex (spinClosure p rnd tok) = Some i \<and> 0 \<le> i \<and>
      i < int (length (reelItems p rnd))"
    using clampedClosestIndex_in_range [of p rnd tok] by blast
next
  fix es
  assume tok: "spinTokenRef (run es (spin p rnd ck (run es0 initial)))
      = spinTokenRef (run es0 initial) + 1"
  let ?cl = "spinClosure p rnd (spinTokenRef (run es0 initial) + 1)"
  let ?R = "run es (spin p rnd ck (run es0 initial))"
  let ?tr1 = "trace (run es0 initial) @ startEvents p (wallNow ck)"
  have "session ?cl (wallNow ck) ?tr1 ?R"
    using spin_session_run [OF assms(1,2) tok] .
  then consider "trace ?R = ?tr1"
    | t where "wallNow ck + minMs ?cl \<le> t" "trace ?R = ?tr1 @ endEvents ?cl t"
    by (auto simp: session_def)
  then show "trace ?R = ?tr1 \<or>
      (\<exists>t x. x \<in> set (itemsPool p) \<and>
         trace ?R = trace (run es0 initial) @ startEvents p (wallNow ck) @ [(t, SpinEnd (Some x))])"
  proof cases
    case 1
    then show ?thesis by simp
  next
    case (2 t)
    then show ?thesis
      using endEvents_unforced [OF assms(3,2,4), of "spinTokenRef (run es0 initial) + 1" t]
      by auto
  qed
qed

theorem unforced_result_is_pool_member_witness:
  "\<not> isSpinningRef (run [] (initial :: demo_item state))
   \<and> itemsPool (demoProps\<lparr>forcedResult := None\<rparr>) \<noteq> []
   \<and> forcedResult (demoProps\<lparr>forcedResult := None\<rparr>) = None
   \<and> (\<forall>n. 0 \<le> demoRandom n \<and> demoRandom n < 1)
   \<and> set (reelItems (demoProps\<lparr>forcedResult := None\<rparr>) demoRandom)
       \<subseteq> Some ` set (itemsPool (demoProps\<lparr>forcedResult := None\<rparr>))
   \<and> spinTokenRef (run demoFires
        (spin (demoProps\<lparr>forcedResult := None\<rparr>) demoRandom (demoClocks 0) (run [] initial)))
       = spinTokenRef (run [] (initial :: demo_item state)) + 1
   \<and> trace (run demoFires
        (spin (demoProps\<lparr>forcedResult := None\<rparr>) demoRandom (demoClocks 0) (run [] initial)))
       = [(0, SpinStart), (2966, SpinEnd (Some ItemB))]"
proof -
  let ?p = "demoProps\<lparr>forcedResult := None\<rparr>"
  have h1: "\<not> isSpinningRef (run [] (initial :: demo_item state))"
    by (simp add: initial_def)
  have h2: "itemsPool ?p \<noteq> []" and h3: "forcedResult ?p = None"
    by (simp_all add: demoProps_def DEFAULT_REEL_ITEMS_def DEFAULT_FORCED_TARGET_INDEX_def)
  have h4: "\<forall>n. 0 \<le> demoRandom n \<and> demoRandom n < 1"
    using demoRandom_unit by blast
  have tok: "spinTokenRef (run demoFires (spin ?p demoRandom (demoClocks 0) (run [] initial)))
       = spinTokenRef (run [] (initial :: demo_item state)) + 1"
    by code_simp
  have r: "trace (run demoFires (spin ?p demoRandom (demoClocks 0) (run [] initial)))
       = [(0, SpinStart), (2966, SpinEnd (Some ItemB))]"
    by code_simp
  have "set (reelItems ?p demoRandom) \<subseteq> Some ` set (itemsPool ?p)"
    using unforced_result_is_pool_member [OF h1 h2 h3 h4, of "demoClocks 0"] by blast
  then show ?thesis using h1 h2 h3 h4 tok r by blast
qed

subsection \<open>Overlapping calls\<close>

text \<open>
  Claim C3. \<^verbatim>\<open>spin\<close> returns at once while \<^verbatim>\<open>isSpinningRef\<close> is set: a call made
  while a spin is live changes nothing (no callback, no new token, the pending work stays
  in place), so the rest of the run is what it is without that call. There is no second
  \<^verbatim>\<open>onSpinStart\<close>/\<^verbatim>\<open>onSpinEnd\<close> pair, and the spin that completes is the one already
  live, not the latest call.
\<close>

theorem spin_while_live_is_ignored:
  assumes "isSpinningRef (run es1 s)"
  shows "spin q rnd ck (run es1 s) = run es1 s
       \<and> run (es1 @ (ck, CallSpin q rnd) # es2) s = run (es1 @ es2) s"
  using assms by (simp add: spin_def)

theorem spin_while_live_is_ignored_witness:
  "isSpinningRef (run [(demoClocks 0, CallSpin (demoProps\<lparr>forcedResult := Some ItemA\<rparr>) demoRandom),
                       (demoClocks 0, FireTimer 1), (demoClocks 16, FireFrame 2)] initial)
   \<and> run ([(demoClocks 0, CallSpin (demoProps\<lparr>forcedResult := Some ItemA\<rparr>) demoRandom),
            (demoClocks 0, FireTimer 1), (demoClocks 16, FireFrame 2)]
           @ (demoClocks 100, CallSpin (demoProps\<lparr>forcedResult := Some ItemC\<rparr>) demoRandom)
           # drop 2 demoFires) initial
     = run ([(demoClocks 0, CallSpin (demoProps\<lparr>forcedResult := Some ItemA\<rparr>) demoRandom),
             (demoClocks 0, FireTimer 1), (demoClocks 16, FireFrame 2)]
            @ drop 2 demoFires) initial
   \<and> trace (run ([(demoClocks 0, CallSpin (demoProps\<lparr>forcedResult := Some ItemA\<rparr>) demoRandom),
             (demoClocks 0, FireTimer 1), (demoClocks 16, FireFrame 2)]
            @ drop 2 demoFires) initial)
     = [(0, SpinStart), (2966, SpinEnd (Some ItemA))]"
proof -
  let ?es1 = "[(demoClocks 0, CallSpin (demoProps\<lparr>forcedResult := Some ItemA\<rparr>) demoRandom),
               (demoClocks 0, FireTimer 1), (demoClocks 16, FireFrame 2)]"
  have h: "isSpinningRef (run ?es1 initial)" by code_simp
  have r: "trace (run (?es1 @ drop 2 demoFires) initial)
      = [(0, SpinStart), (2966, SpinEnd (Some ItemA))]"
    by code_simp
  show ?thesis
    using spin_while_live_is_ignored [OF h, of "demoProps\<lparr>forcedResult := Some ItemC\<rparr>"
        demoRandom "demoClocks 100" "drop 2 demoFires"] h r
    by blast
qed

text \<open>
  The latest call does not complete. A spin forced to \<open>ItemA\<close> is started; while it is
  live, \<^verbatim>\<open>spin\<close> is called again with the props of a later render, forced to \<open>ItemC\<close>.
  The only \<^verbatim>\<open>onSpinEnd\<close> of the run reports \<open>ItemA\<close>, the result of the earlier call.
\<close>

theorem latest_spin_call_never_completes:
  "isSpinningRef (run [(demoClocks 0, CallSpin (demoProps\<lparr>forcedResult := Some ItemA\<rparr>) demoRandom),
                       (demoClocks 0, FireTimer 1), (demoClocks 16, FireFrame 2)] initial)
   \<and> itemsPool (demoProps\<lparr>forcedResult := Some ItemC\<rparr>) \<noteq> []
   \<and> trace (run [(demoClocks 0, CallSpin (demoProps\<lparr>forcedResult := Some ItemA\<rparr>) demoRandom),
                  (demoClocks 0, FireTimer 1), (demoClocks 16, FireFrame 2),
                  (demoClocks 100, CallSpin (demoProps\<lparr>forcedResult := Some ItemC\<rparr>) demoRandom),
                  (demoClocks 2500, FireFrame 3), (demoClocks 2516, FireFrame 4),
                  (demoClocks 2916, FireFrame 5), (demoClocks 2966, FireTimer 6)] initial)
       = [(0, SpinStart), (2966, SpinEnd (Some ItemA))]"
  by code_simp

subsection \<open>Teardown\<close>

text \<open>
  Claim C4. After any history (in particular in the middle of a spin), the cleanup leaves
  no timeout and no animation frame pending; and whatever the host then tries to fire,
  and however often the cleanup runs again, nothing is pending afterwards and the log is
  the log of the moment of the unmount: no \<^verbatim>\<open>onSpinEnd\<close> follows. (A discarded
  component is not asked to spin again.)
\<close>

theorem unmount_cancels_everything:
  assumes "\<forall>e \<in> set es'. \<not> isCallSpin (snd e)"
  shows "quiet (run (es @ [(ck, Unmount)]) initial)
       \<and> quiet (run (es @ (ck, Unmount) # es') initial)
       \<and> trace (run (es @ (ck, Unmount) # es') initial) = trace (run es initial)"
proof -
  have "tracked (run es initial)" by (intro tracked_run tracked_initial)
  then have q: "quiet (unmount (run es initial))" by (rule quiet_unmount)
  then show ?thesis using quiet_run_silent [OF q assms] by simp
qed

theorem unmount_cancels_everything_witness:
  "list_all (\<lambda>e. \<not> isCallSpin (snd e)) (drop 2 demoFires)
   \<and> frames (run [(demoClocks 0, CallSpin demoProps demoRandom), (demoClocks 0, FireTimer 1),
                   (demoClocks 16, FireFrame 2)] initial) \<noteq> []
   \<and> quiet (run ([(demoClocks 0, CallSpin demoProps demoRandom), (demoClocks 0, FireTimer 1),
                   (demoClocks 16, FireFrame 2)] @ [(demoClocks 1000, Unmount)]) initial)
   \<and> trace (run ([(demoClocks 0, CallSpin demoProps demoRandom), (demoClocks 0, FireTimer 1),
                   (demoClocks 16, FireFrame 2)] @ (demoClocks 1000, Unmount) # drop 2 demoFires)
              initial)
     = trace (run [(demoClocks 0, CallSpin demoProps demoRandom), (demoClocks 0, FireTimer 1),
                   (demoClocks 16, FireFrame 2)] initial)
   \<and> trace (run [(demoClocks 0, CallSpin demoProps demoRandom), (demoClocks 0, FireTimer 1),
                   (demoClocks 16, FireFrame 2)] initial) = [(0, SpinStart)]
   \<and> trace (run ([(demoClocks 0, CallSpin demoProps demoRandom), (demoClocks 0, FireTimer 1),
                   (demoClocks 16, FireFrame 2)] @ drop 2 demoFires) initial)
     = [(0, SpinStart), (2966, SpinEnd (Some ItemB))]"
proof -
  let ?es = "[(demoClocks 0, CallSpin demoProps demoRandom), (demoClocks 0, FireTimer 1),
              (demoClocks 16, FireFrame 2)]"
  have h: "\<forall>e \<in> set (drop 2 demoFires). \<not> isCallSpin (snd e)"
    by (simp add: demoFires_def)
  have f: "frames (run ?es initial) \<noteq> []" by code_simp
  have r1: "trace (run ?es initial) = [(0, SpinStart)]" by code_simp
  have r2: "trace (run (?es @ drop 2 demoFires) initial)
      = [(0, SpinStart), (2966, SpinEnd (Some ItemB))]"
    by code_simp
  have h': "list_all (\<lambda>e. \<not> isCallSpin (snd e)) (drop 2 demoFires)"
    using h by (simp only: list_all_iff)
  show ?thesis
    using unmount_cancels_everything [OF h, of ?es "demoClocks 1000"] h' f r1 r2
    by blast
qed

subsection \<open>Empty pool\<close>

text \<open>
  Claim C5. With an empty pool \<^verbatim>\<open>spin\<close> changes nothing: the state, the pending work
  and the log stay as they are, and the rest of any run is what it is without the call,
  so neither \<^verbatim>\<open>onSpinStart\<close> nor \<^verbatim>\<open>onSpinEnd\<close> is invoked. And a call of \<^verbatim>\<open>spin\<close>
  never fails in another way: it either changes nothing or it starts a spin, marking it
  live, minting a token and invoking \<^verbatim>\<open>onSpinStart\<close>.
\<close>

theorem empty_pool_spin_is_silent:
  assumes "itemsPool p = []"
  shows "spin p rnd ck s = s
       \<and> run (es1 @ (ck, CallSpin p rnd) # es2) s = run (es1 @ es2) s
       \<and> (\<forall>q rnd' ck'. spin q rnd' ck' s = s \<or>
             (isSpinningRef (spin q rnd' ck' s) \<and>
              spinTokenRef (spin q rnd' ck' s) = spinTokenRef s + 1 \<and>
              trace (spin q rnd' ck' s) = trace s @ startEvents q (wallNow ck')))"
proof (intro conjI allI)
  show "spin p rnd ck s = s" using assms by (simp add: spin_def)
  show "run (es1 @ (ck, CallSpin p rnd) # es2) s = run (es1 @ es2) s"
    using assms by (simp add: spin_def)
next
  fix q :: "'a props" and rnd' :: "nat \<Rightarrow> real" and ck' :: clocks
  show "spin q rnd' ck' s = s \<or>
      (isSpinningRef (spin q rnd' ck' s) \<and>
       spinTokenRef (spin q rnd' ck' s) = spinTokenRef s + 1 \<and>
       trace (spin q rnd' ck' s) = trace s @ startEvents q (wallNow ck'))"
    by (simp add: spin_def Let_def host_defs split: prod.splits)
qed

theorem empty_pool_spin_is_silent_witness:
  "itemsPool (demoProps\<lparr>itemsPool := []\<rparr>) = []
   \<and> spin (demoProps\<lparr>itemsPool := []\<rparr>) demoRandom (demoClocks 0) initial = initial
   \<and> run ([] @ (demoClocks 0, CallSpin (demoProps\<lparr>itemsPool := []\<rparr>) demoRandom) # demoFires) initial
       = run ([] @ demoFires) initial
   \<and> trace (run demoFires (initial :: demo_item state)) = []"
proof -
  have h: "itemsPool (demoProps\<lparr>itemsPool := []\<rparr>) = []" by simp
  have r: "trace (run demoFires (initial :: demo_item state)) = []" by code_simp
  show ?thesis
    using empty_pool_spin_is_silent [OF h, of demoRandom "demoClocks 0" initial "[]" demoFires] h r
    by blast
qed

subsection \<open>A forced index outside the reel\<close>

text \<open>
  Claim C6. The forced index is not clamped when the sequence is built. With
  \<^verbatim>\<open>forcedTargetIndex = -1\<close> (pool of three items, forced result \<open>ItemB\<close>, 35 reel
  items) the assignment \<^verbatim>\<open>base[forcedTargetIndex] = forced\<close> sets no element: the
  sequence is 35 random items without the forced one placed, \<^verbatim>\<open>animate\<close> resolves to
  the clamped index 0 and \<^verbatim>\<open>onSpinEnd\<close> reports the random item there, \<open>ItemA\<close>,
  instead of the forced result. With \<^verbatim>\<open>forcedTargetIndex = 40\<close> the sequence has 41
  entries, not 35, and the spin resolves to index 40.
\<close>

theorem forced_index_out_of_range_is_not_clamped:
  "reelItems (demoProps\<lparr>forcedTargetIndex := - 1\<rparr>) demoRandom
     = generateItems (demoProps\<lparr>forcedTargetIndex := - 1\<rparr>) demoRandom 0 35
   \<and> clampedClosestIndex (spinClosure (demoProps\<lparr>forcedTargetIndex := - 1\<rparr>) demoRandom 1) = Some 0
   \<and> reelItems (demoProps\<lparr>forcedTargetIndex := - 1\<rparr>) demoRandom ! 0 = Some ItemA
   \<and> trace (run demoFires
              (spin (demoProps\<lparr>forcedTargetIndex := - 1\<rparr>) demoRandom (demoClocks 0) initial))
       = [(0, SpinStart), (2966, SpinEnd (Some ItemA))]
   \<and> length (reelItems (demoProps\<lparr>forcedTargetIndex := 40\<rparr>) demoRandom) = 41
   \<and> clampedClosestIndex (spinClosure (demoProps\<lparr>forcedTargetIndex := 40\<rparr>) demoRandom 1) = Some 40"
  by code_simp

end
